theory Spec2Isabelle
  imports Main "HOL-Library.Word"
begin

unbundle bit_operations_syntax

section \<open>Machine types\<close>

text \<open>
  The header \<^verbatim>\<open>vger_private.h\<close> uses \<^verbatim>\<open>uint16_t\<close>, \<^verbatim>\<open>uint64_t\<close>, \<^verbatim>\<open>size_t\<close>,
  \<^verbatim>\<open>int\<close> and \<^verbatim>\<open>float\<close>. Each is a word of its width. A C \<^verbatim>\<open>int\<close> is a 32-bit
  word read in two's complement (\<open>sint\<close>, \<open><s\<close>); \<^verbatim>\<open>size_t\<close> is 64 bits wide on the
  platforms the renderer targets. A \<^verbatim>\<open>float\<close> is its IEEE-754 binary32 bit pattern:
  sign (bit 31), exponent (bits 30..23), fraction (bits 22..0). No floating-point
  arithmetic is modelled, only the comparison \<^verbatim>\<open>==\<close>.
\<close>

type_synonym uint16_t = "16 word"
type_synonym uint64_t = "64 word"
type_synonym size_t = "64 word"
type_synonym cint = "32 word"
type_synonym float = "32 word"
type_synonym float2 = "float \<times> float"
type_synonym float3 = "float \<times> float \<times> float"
type_synonym float3x3 = "float3 \<times> float3 \<times> float3"

text \<open>A NaN has all exponent bits set and a non-zero fraction.\<close>

definition isnan :: "float \<Rightarrow> bool" where
  "isnan f \<longleftrightarrow> f AND 0x7F800000 = 0x7F800000 \<and> f AND 0x007FFFFF \<noteq> 0"

text \<open>Plus and minus zero: every bit but the sign is clear.\<close>

definition iszero :: "float \<Rightarrow> bool" where
  "iszero f \<longleftrightarrow> f AND 0x7FFFFFFF = 0"

text \<open>
  The built-in \<^verbatim>\<open>==\<close> on two floats: false as soon as one side is a NaN, true on the
  two zeros, otherwise equality of the bit patterns.
\<close>

definition float_eq :: "float \<Rightarrow> float \<Rightarrow> bool" where
  "float_eq a b \<longleftrightarrow> \<not> isnan a \<and> \<not> isnan b \<and> (a = b \<or> (iszero a \<and> iszero b))"





definition float_qnan :: float where
  "float_qnan = 0x7FC00000"

definition float_minus_one :: float where
  "float_minus_one = 0xBF800000"

definition float_hundred :: float where
  "float_hundred = 0x42C80000"

section \<open>Text layout keys\<close>

text \<open>
  \<^verbatim>\<open>struct TextLayoutKey { std::string str; float size; int align; float breakRowWidth = -1; }\<close>.
  The field \<^verbatim>\<open>size\<close> is written \<open>size_k\<close> here.
\<close>

record TextLayoutKey =
  str :: string
  size_k :: float
  align :: cint
  breakRowWidth :: float

text \<open>
  \<^verbatim>\<open>MAKE_HASHABLE(TextLayoutKey, t.str, t.size, t.align, t.breakRowWidth)\<close> expands to
  \<^verbatim>\<open>__tie\<close>, \<^verbatim>\<open>operator==\<close>, \<^verbatim>\<open>operator!=\<close> and \<^verbatim>\<open>std::hash<TextLayoutKey>\<close>.
  \<^verbatim>\<open>__tie(t)\<close> is \<^verbatim>\<open>std::tie(t.str, t.size, t.align, t.breakRowWidth)\<close>.
\<close>

definition tie :: "TextLayoutKey \<Rightarrow> string \<times> float \<times> cint \<times> float" where
  "tie t = (str t, size_k t, align t, breakRowWidth t)"

text \<open>
  \<^verbatim>\<open>operator==\<close> of \<^verbatim>\<open>std::tuple\<close> compares component by component, left to right, each
  with the \<^verbatim>\<open>==\<close> of its own type: strings and ints by value, floats by \<open>float_eq\<close>.
\<close>

fun tuple_eq :: "string \<times> float \<times> cint \<times> float \<Rightarrow> string \<times> float \<times> cint \<times> float \<Rightarrow> bool" where
  "tuple_eq (s1, z1, a1, w1) (s2, z2, a2, w2) \<longleftrightarrow>
     s1 = s2 \<and> float_eq z1 z2 \<and> a1 = a2 \<and> float_eq w1 w2"

definition operator_eq :: "TextLayoutKey \<Rightarrow> TextLayoutKey \<Rightarrow> bool" where
  "operator_eq lhs rhs \<longleftrightarrow> tuple_eq (tie lhs) (tie rhs)"


subsection \<open>Hashing\<close>

text \<open>
  \<^verbatim>\<open>hash_combine(seed, v, rest...)\<close> performs
  \<^verbatim>\<open>seed ^= hasher(v) + 0x9e3779b9 + (seed<<6) + (seed>>2)\<close> and recurses on the rest; with
  no value left it does nothing. The values have different types, so the model takes
  the list of their \<^verbatim>\<open>std::hash\<close> results, in argument order.
\<close>

fun hash_combine :: "size_t \<Rightarrow> size_t list \<Rightarrow> size_t" where
  "hash_combine seed [] = seed"
| "hash_combine seed (h # rest) =
     hash_combine (seed XOR (h + 0x9e3779b9 + push_bit 6 seed + drop_bit 2 seed)) rest"

text \<open>
  The library hashers \<^verbatim>\<open>std::hash<std::string>\<close>, \<^verbatim>\<open>std::hash<float>\<close> and
  \<^verbatim>\<open>std::hash<int>\<close> are parameters.
\<close>

record std_hash =
  hash_string :: "string \<Rightarrow> size_t"
  hash_float :: "float \<Rightarrow> size_t"
  hash_int :: "cint \<Rightarrow> size_t"

text \<open>
  What the C++ standard demands of \<^verbatim>\<open>std::hash<float>\<close>: equal arguments hash alike.
  For strings and ints \<^verbatim>\<open>==\<close> is identity of values, so every function qualifies.
\<close>

definition hash_respects_eq :: "std_hash \<Rightarrow> bool" where
  "hash_respects_eq H \<longleftrightarrow> (\<forall>x y. float_eq x y \<longrightarrow> hash_float H x = hash_float H y)"

text \<open>\<^verbatim>\<open>std::hash<TextLayoutKey>::operator()\<close>: \<^verbatim>\<open>ret = 0; hash_combine(ret, ...); return ret\<close>.\<close>

definition hash_TextLayoutKey :: "std_hash \<Rightarrow> TextLayoutKey \<Rightarrow> size_t" where
  "hash_TextLayoutKey H t =
     hash_combine 0
       [hash_string H (str t), hash_float H (size_k t), hash_int H (align t),
        hash_float H (breakRowWidth t)]"

subsection \<open>The text cache as a container\<close>

text \<open>
  \<^verbatim>\<open>std::unordered_map<TextLayoutKey, TextLayoutInfo> textCache\<close>. The container finds
  an entry by comparing the stored key with the sought one through \<^verbatim>\<open>operator==\<close>
  (the hash only selects the bucket), so it is an association list searched with
  \<open>operator_eq\<close>. \<open>cache_find\<close> is \<^verbatim>\<open>find\<close>; \<open>cache_put\<close> is \<^verbatim>\<open>textCache[key] = v\<close>,
  which overwrites the value of the entry found and appends a new entry otherwise.
\<close>

fun cache_find :: "(TextLayoutKey \<times> 'v) list \<Rightarrow> TextLayoutKey \<Rightarrow> 'v option" where
  "cache_find [] k = None"
| "cache_find ((k', v) # c) k = (if operator_eq k' k then Some v else cache_find c k)"

fun cache_put :: "TextLayoutKey \<Rightarrow> 'v \<Rightarrow> (TextLayoutKey \<times> 'v) list \<Rightarrow> (TextLayoutKey \<times> 'v) list" where
  "cache_put k v [] = [(k, v)]"
| "cache_put k v ((k', v') # c) =
     (if operator_eq k' k then (k', v) # c else (k', v') # cache_put k v c)"

section \<open>The renderer state\<close>

text \<open>
  Modelled from the spec: \<^verbatim>\<open>vgerPrim\<close> is declared in a header that is not among these
  sources. The spec's data model: a Primitive is "a fixed-size record describing one
  drawable unit", "referencing a paint index and a transform index by integer handle",
  the handles being 16-bit indices. Whatever else the record holds is \<open>geometry\<close>.
\<close>

record 'r vgerPrim =
  paint :: uint16_t
  xform :: uint16_t
  geometry :: 'r

text \<open>\<^verbatim>\<open>struct TextLayoutInfo { uint64_t lastFrame = 0; std::vector<vgerPrim> prims; }\<close>\<close>

record 'r TextLayoutInfo =
  lastFrame :: uint64_t
  prims :: "'r vgerPrim list"

text \<open>
  Modelled from the spec: \<^verbatim>\<open>vgerScene\<close> is declared in \<^verbatim>\<open>vgerScene.h\<close>, not among these
  sources. The spec's Scene Buffer is "one complete set of {Primitive arena, CV arena,
  Transform arena, Paint arena}"; the record holds where each of the four buffers
  starts.
\<close>

record vgerScene =
  primBuf :: nat
  cvBuf :: nat
  xformBuf :: nat
  paintBuf :: nat

text \<open>
  \<^verbatim>\<open>struct vger\<close>, with the members the functions below read or write, in the order of
  the header. \<^verbatim>\<open>vgerScene scenes[3]\<close> is a triple. A pointer into a buffer is the
  address of the element it points at, counted in elements; the memory the four
  cursors point into is part of the state, one store per element type (\<open>primMem\<close>,
  \<open>cvMem\<close>, \<open>xformMem\<close>, \<open>paintMem\<close>). The stores are total: a store past the end of a
  buffer is recorded like any other, which makes an overrun visible as a cursor and a
  written address beyond the buffer. \<^verbatim>\<open>vgerPaint\<close> is declared in another header and is
  the type parameter \<open>'paint\<close>.
\<close>

record ('paint, 'r) vger =
  scenes :: "vgerScene \<times> vgerScene \<times> vgerScene"
  curBuffer :: cint
  primPtr :: nat
  primCount :: cint
  maxPrims :: cint
  cvPtr :: nat
  cvCount :: cint
  maxCvs :: cint
  xformCount :: uint16_t
  xformPtr :: nat
  paintCount :: uint16_t
  paintPtr :: nat
  textCache :: "(TextLayoutKey \<times> 'r TextLayoutInfo) list"
  currentFrame :: uint64_t
  primMem :: "nat \<Rightarrow> 'r vgerPrim"
  cvMem :: "nat \<Rightarrow> float2"
  xformMem :: "nat \<Rightarrow> float3x3"
  paintMem :: "nat \<Rightarrow> 'paint"

text \<open>
  The default member initializers of \<^verbatim>\<open>struct vger\<close>: \<^verbatim>\<open>curBuffer = 0\<close>, \<^verbatim>\<open>primCount = 0\<close>,
  \<^verbatim>\<open>maxPrims = 65536\<close>, \<^verbatim>\<open>cvCount = 0\<close>, \<^verbatim>\<open>maxCvs = 1024*1024\<close>, \<^verbatim>\<open>xformCount = 0\<close>,
  \<^verbatim>\<open>paintCount = 0\<close>, \<^verbatim>\<open>currentFrame = 1\<close>, and an empty \<^verbatim>\<open>textCache\<close>. The members
  without an initializer (the scenes, the four pointers) and the memory keep whatever
  the argument holds.
\<close>

definition default_members :: "('paint, 'r) vger \<Rightarrow> ('paint, 'r) vger" where
  "default_members u =
     u\<lparr>curBuffer := 0, primCount := 0, maxPrims := 65536, cvCount := 0,
       maxCvs := 1024 * 1024, xformCount := 0, paintCount := 0, textCache := [],
       currentFrame := 1\<rparr>"

subsection \<open>The arena functions of the header\<close>

text \<open>
  \<^verbatim>\<open>void addCV(float2 p) { if(cvCount < maxCvs) { *(cvPtr++) = p; cvCount++; } }\<close>.
  Both operands of the comparison are \<^verbatim>\<open>int\<close>.
\<close>

definition addCV :: "float2 \<Rightarrow> ('paint, 'r) vger \<Rightarrow> ('paint, 'r) vger" where
  "addCV p s =
     (if cvCount s <s maxCvs s
      then s\<lparr>cvMem := (cvMem s)(cvPtr s := p), cvPtr := cvPtr s + 1, cvCount := cvCount s + 1\<rparr>
      else s)"

text \<open>
  \<^verbatim>\<open>uint16_t addxform(const matrix_float3x3& M) { if(xformCount < maxPrims) { *(xformPtr++) = M; return xformCount++; } return 0; }\<close>.
  In \<^verbatim>\<open>xformCount < maxPrims\<close> the \<^verbatim>\<open>uint16_t\<close> operand is promoted to \<^verbatim>\<open>int\<close>, which
  keeps its value (\<open>uint\<close>), and the comparison is the signed one. The post-increment
  returns the old count and adds 1 modulo \<open>2 ^ 16\<close>.
\<close>

definition addxform :: "float3x3 \<Rightarrow> ('paint, 'r) vger \<Rightarrow> uint16_t \<times> ('paint, 'r) vger" where
  "addxform M s =
     (if uint (xformCount s) < sint (maxPrims s)
      then (xformCount s,
            s\<lparr>xformMem := (xformMem s)(xformPtr s := M), xformPtr := xformPtr s + 1,
              xformCount := xformCount s + 1\<rparr>)
      else (0, s))"

text \<open>
  \<^verbatim>\<open>uint16_t addPaint(const vgerPaint& paint) { if(paintCount < maxPrims) { *(paintPtr++) = paint; return paintCount++; } return 0; }\<close>
\<close>

definition addPaint :: "'paint \<Rightarrow> ('paint, 'r) vger \<Rightarrow> uint16_t \<times> ('paint, 'r) vger" where
  "addPaint P s =
     (if uint (paintCount s) < sint (maxPrims s)
      then (paintCount s,
            s\<lparr>paintMem := (paintMem s)(paintPtr s := P), paintPtr := paintPtr s + 1,
              paintCount := paintCount s + 1\<rparr>)
      else (0, s))"

text \<open>Sequences of calls: the state is threaded through, the returned indices collected.\<close>

fun addCV_seq :: "float2 list \<Rightarrow> ('paint, 'r) vger \<Rightarrow> ('paint, 'r) vger" where
  "addCV_seq [] s = s"
| "addCV_seq (p # ps) s = addCV_seq ps (addCV p s)"

fun addxform_seq :: "float3x3 list \<Rightarrow> ('paint, 'r) vger \<Rightarrow> uint16_t list \<times> ('paint, 'r) vger" where
  "addxform_seq [] s = ([], s)"
| "addxform_seq (M # Ms) s =
     (case addxform M s of (i, s') \<Rightarrow>
        (case addxform_seq Ms s' of (js, s'') \<Rightarrow> (i # js, s'')))"

fun addPaint_seq :: "'paint list \<Rightarrow> ('paint, 'r) vger \<Rightarrow> uint16_t list \<times> ('paint, 'r) vger" where
  "addPaint_seq [] s = ([], s)"
| "addPaint_seq (P # Ps) s =
     (case addPaint P s of (i, s') \<Rightarrow>
        (case addPaint_seq Ps s' of (js, s'') \<Rightarrow> (i # js, s'')))"

section \<open>Linear gradients\<close>




section \<open>Operations declared in the header and defined elsewhere\<close>

text \<open>
  The header declares \<^verbatim>\<open>renderCachedText\<close>, \<^verbatim>\<open>renderText\<close>, \<^verbatim>\<open>renderTextBox\<close> and
  \<^verbatim>\<open>encode\<close>; their bodies, the append to the primitive arena, the prune pass and the
  switch of scene buffers are in a file that is not among these sources. They are
  modelled from the spec, over the state and the container above.
\<close>

text \<open>
  Modelled from the spec: the append to the primitive arena, whose code is missing.
  Section 4.1: \<^verbatim>\<open>add(item)\<close> "appends item at the current cursor ... if capacity
  remains, else ... performs no write"; the primitive capacity is \<^verbatim>\<open>maxPrims\<close>.
\<close>

definition addPrim :: "'r vgerPrim \<Rightarrow> ('paint, 'r) vger \<Rightarrow> ('paint, 'r) vger" where
  "addPrim pr s =
     (if primCount s <s maxPrims s
      then s\<lparr>primMem := (primMem s)(primPtr s := pr), primPtr := primPtr s + 1,
             primCount := primCount s + 1\<rparr>
      else s)"

text \<open>The room left in the primitive arena, in primitives.\<close>

definition prim_room :: "('paint, 'r) vger \<Rightarrow> nat" where
  "prim_room s = nat (sint (maxPrims s) - sint (primCount s))"

text \<open>
  Modelled from the spec: the copy loop of \<^verbatim>\<open>renderCachedText\<close>, whose body is missing.
  Section 4.4: it "copies the cached Primitive sequence into the current Scene Buffer
  (rewriting each Primitive's paint/transform references to the caller-supplied
  handles)". Each primitive goes through the arena's \<open>addPrim\<close>.
\<close>

fun copy_prims :: "uint16_t \<Rightarrow> uint16_t \<Rightarrow> 'r vgerPrim list \<Rightarrow> ('paint, 'r) vger \<Rightarrow> ('paint, 'r) vger" where
  "copy_prims ph xh [] s = s"
| "copy_prims ph xh (pr # prs) s = copy_prims ph xh prs (addPrim (pr\<lparr>paint := ph, xform := xh\<rparr>) s)"

text \<open>
  Modelled from the spec: \<^verbatim>\<open>bool renderCachedText(const TextLayoutKey& key, uint16_t paint, uint16_t xform)\<close>,
  declared in the header, body missing. Section 4.4: "Looks up key in the mapping; on
  hit, copies the cached Primitive sequence into the current Scene Buffer ... and
  stamps lastFrame = currentFrame; returns true. On miss, returns false".
\<close>

definition renderCachedText ::
    "TextLayoutKey \<Rightarrow> uint16_t \<Rightarrow> uint16_t \<Rightarrow> ('paint, 'r) vger \<Rightarrow> bool \<times> ('paint, 'r) vger" where
  "renderCachedText key ph xh s =
     (case cache_find (textCache s) key of
        None \<Rightarrow> (False, s)
      | Some info \<Rightarrow>
          (True,
           copy_prims ph xh (prims info)
             (s\<lparr>textCache :=
                  cache_put key (info\<lparr>lastFrame := currentFrame s\<rparr>) (textCache s)\<rparr>)))"

text \<open>
  The arguments of one text draw: the key built from the string, the size, the
  alignment and the wrap width; the paint and transform handles of the frame; and what
  the external text shaper makes of the string, as primitives.
\<close>

record 'r draw =
  draw_key :: TextLayoutKey
  draw_shaped :: "'r vgerPrim list"
  draw_paint :: uint16_t
  draw_xform :: uint16_t

text \<open>
  Modelled from the spec: one text draw (\<^verbatim>\<open>renderText\<close>, \<^verbatim>\<open>renderTextBox\<close>), declared in
  the header, bodies missing. Section 4.4: the draw first tries \<open>renderCachedText\<close>; on
  a miss the caller shapes the text, submits the primitives, and "finally insert[s]
  the resulting Primitive sequence into the cache keyed by key with lastFrame =
  currentFrame".
\<close>

definition drawText :: "'r draw \<Rightarrow> ('paint, 'r) vger \<Rightarrow> ('paint, 'r) vger" where
  "drawText d s =
     (case renderCachedText (draw_key d) (draw_paint d) (draw_xform d) s of
        (True, s') \<Rightarrow> s'
      | (False, s') \<Rightarrow>
          copy_prims (draw_paint d) (draw_xform d) (draw_shaped d)
            (s'\<lparr>textCache :=
                 cache_put (draw_key d)
                   \<lparr>lastFrame = currentFrame s', prims = draw_shaped d\<rparr> (textCache s')\<rparr>))"

text \<open>
  Modelled from the spec: the prune pass, whose code is missing. Section 4.4: "every
  cache entry whose lastFrame != currentFrame is removed".
\<close>

definition prune :: "('paint, 'r) vger \<Rightarrow> ('paint, 'r) vger" where
  "prune s =
     s\<lparr>textCache := filter (\<lambda>e. lastFrame (snd e) = currentFrame s) (textCache s)\<rparr>"

text \<open>\<^verbatim>\<open>scenes[i]\<close>, for the indices 0, 1 and 2 of the three-element array.\<close>

definition scene_at :: "vgerScene \<times> vgerScene \<times> vgerScene \<Rightarrow> cint \<Rightarrow> vgerScene" where
  "scene_at sc i = (case sc of (a, b, c) \<Rightarrow> if i = 0 then a else if i = 1 then b else c)"

text \<open>
  Modelled from the spec: \<^verbatim>\<open>advance()\<close>, whose code is missing. Section 4.2: it
  "increments the buffer index modulo N, then resets all four arenas of the
  newly-current buffer", N being 3; section 4.1: a reset "rewinds cursor and count to
  zero without touching memory". The index is one of 0, 1, 2 and is read as unsigned.
\<close>

definition advance :: "('paint, 'r) vger \<Rightarrow> ('paint, 'r) vger" where
  "advance s =
     (let b = (curBuffer s + 1) mod 3; sc = scene_at (scenes s) b in
      s\<lparr>curBuffer := b,
        primPtr := primBuf sc, primCount := 0,
        cvPtr := cvBuf sc, cvCount := 0,
        xformCount := 0, xformPtr := xformBuf sc,
        paintCount := 0, paintPtr := paintBuf sc\<rparr>)"

text \<open>
  Modelled from the spec: the end of a frame, whose code is missing. Section 2: "at
  frame end, the buffer index advances and the Text Layout Cache is pruned"; section
  3: \<^verbatim>\<open>currentFrame\<close> is "incremented exactly once per encoded frame". The prune pass
  of a frame compares against that frame's number, then the number goes up.
\<close>

definition frame_end :: "('paint, 'r) vger \<Rightarrow> ('paint, 'r) vger" where
  "frame_end s = advance ((prune s)\<lparr>currentFrame := currentFrame s + 1\<rparr>)"

text \<open>
  Modelled from the spec: the life of the cache over frames, driven by code that is
  missing. Section 2: "caller issues draw calls ... at frame end, the buffer index
  advances and the Text Layout Cache is pruned". A frame is its text draws, in order,
  then the frame end; frames follow each other.
\<close>

fun run_draws :: "'r draw list \<Rightarrow> ('paint, 'r) vger \<Rightarrow> ('paint, 'r) vger" where
  "run_draws [] s = s"
| "run_draws (d # ds) s = run_draws ds (drawText d s)"

definition run_frame :: "'r draw list \<Rightarrow> ('paint, 'r) vger \<Rightarrow> ('paint, 'r) vger" where
  "run_frame ds s = frame_end (run_draws ds s)"

fun run_frames :: "'r draw list list \<Rightarrow> ('paint, 'r) vger \<Rightarrow> ('paint, 'r) vger" where
  "run_frames [] s = s"
| "run_frames (ds # fs) s = run_frames fs (run_frame ds s)"

text \<open>
  A key is rendered in a frame when one of the frame's draws carries a key equal to it
  (\<^verbatim>\<open>operator==\<close>); it is present in the cache when \<^verbatim>\<open>find\<close> succeeds on it.
\<close>

definition rendered :: "TextLayoutKey \<Rightarrow> 'r draw list \<Rightarrow> bool" where
  "rendered k ds \<longleftrightarrow> list_ex (\<lambda>d. operator_eq (draw_key d) k) ds"

definition present :: "TextLayoutKey \<Rightarrow> ('paint, 'r) vger \<Rightarrow> bool" where
  "present k s \<longleftrightarrow> cache_find (textCache s) k \<noteq> None"

text \<open>A key is drawn in a frame when one of the frame's draws carries that very key.\<close>

definition drawn :: "TextLayoutKey \<Rightarrow> 'r draw list \<Rightarrow> bool" where
  "drawn k ds \<longleftrightarrow> list_ex (\<lambda>d. draw_key d = k) ds"

subsection \<open>Notions used in the proofs about the cache\<close>

text \<open>
  A key is fresh when its entry carries the current frame number; a state is stale
  when no entry does; \<open>matching k c\<close> are the entries of \<open>c\<close> a lookup of \<open>k\<close> can stop at.
\<close>

definition fresh :: "TextLayoutKey \<Rightarrow> ('paint, 'r) vger \<Rightarrow> bool" where
  "fresh k s \<longleftrightarrow> (\<exists>v. cache_find (textCache s) k = Some v \<and> lastFrame v = currentFrame s)"

definition stale :: "('paint, 'r) vger \<Rightarrow> bool" where
  "stale s \<longleftrightarrow> (\<forall>e \<in> set (textCache s). lastFrame (snd e) \<noteq> currentFrame s)"

definition matching :: "TextLayoutKey \<Rightarrow> (TextLayoutKey \<times> 'v) list \<Rightarrow> (TextLayoutKey \<times> 'v) list" where
  "matching k c = filter (\<lambda>e. operator_eq (fst e) k) c"

section \<open>Sample values\<close>

text \<open>
  A state to evaluate on: the default members over scenes whose buffers start at
  address 0 and memory that holds zeros; paints are natural numbers and primitives
  carry no geometry.
\<close>

definition blank_scene :: vgerScene where
  "blank_scene = \<lparr>primBuf = 0, cvBuf = 0, xformBuf = 0, paintBuf = 0\<rparr>"

definition zero3x3 :: float3x3 where
  "zero3x3 = ((0, 0, 0), (0, 0, 0), (0, 0, 0))"

definition sample_vger :: "(nat, unit) vger" where
  "sample_vger =
     default_members
       \<lparr>scenes = (blank_scene, blank_scene, blank_scene), curBuffer = 0,
        primPtr = 0, primCount = 0, maxPrims = 0, cvPtr = 0, cvCount = 0, maxCvs = 0,
        xformCount = 0, xformPtr = 0, paintCount = 0, paintPtr = 0, textCache = [],
        currentFrame = 0,
        primMem = (\<lambda>_. \<lparr>paint = 0, xform = 0, geometry = ()\<rparr>),
        cvMem = (\<lambda>_. (0, 0)), xformMem = (\<lambda>_. zero3x3), paintMem = (\<lambda>_. 0)\<rparr>"

text \<open>The same state with room for four primitives and four control vertices.\<close>

definition tiny_vger :: "(nat, unit) vger" where
  "tiny_vger = sample_vger\<lparr>maxPrims := 4, maxCvs := 4\<rparr>"

text \<open>A sample of library hashers, for evaluation: the float hasher sends both zeros to 0.\<close>

definition sample_hash :: std_hash where
  "sample_hash =
     \<lparr>hash_string = (\<lambda>s. of_nat (length s)),
      hash_float = (\<lambda>f. if iszero f then 0 else ucast f),
      hash_int = ucast\<rparr>"

definition sample_key :: TextLayoutKey where
  "sample_key = \<lparr>str = ''Hello'', size_k = 0x41800000, align = 0, breakRowWidth = float_minus_one\<rparr>"

text \<open>
  Two primitives, a cache that holds them under \<open>sample_key\<close> ("Hello", size 16.0,
  align 0, no wrap) with frame stamp 0, and a draw of the same text.
\<close>

definition sample_prims :: "unit vgerPrim list" where
  "sample_prims =
     [\<lparr>paint = 1, xform = 2, geometry = ()\<rparr>, \<lparr>paint = 3, xform = 4, geometry = ()\<rparr>]"

definition cached_vger :: "(nat, unit) vger" where
  "cached_vger =
     sample_vger\<lparr>textCache := [(sample_key, \<lparr>lastFrame = 0, prims = sample_prims\<rparr>)]\<rparr>"

definition hello_draw :: "unit draw" where
  "hello_draw =
     \<lparr>draw_key = sample_key, draw_shaped = sample_prims, draw_paint = 7, draw_xform = 9\<rparr>"

text \<open>
  The same key with a NaN as its size, and a draw that carries it; the cache state
  with its primitive arena full.
\<close>

definition nan_key :: TextLayoutKey where
  "nan_key = sample_key\<lparr>size_k := float_qnan\<rparr>"

definition nan_draw :: "unit draw" where
  "nan_draw = hello_draw\<lparr>draw_key := nan_key\<rparr>"

definition full_vger :: "(nat, unit) vger" where
  "full_vger = cached_vger\<lparr>primCount := 65536, primPtr := 65536\<rparr>"




section \<open>Properties of the key\<close>

lemma float_eq_sym: "float_eq a b \<Longrightarrow> float_eq b a"
  by (auto simp: float_eq_def)

lemma float_eq_trans: "float_eq a b \<Longrightarrow> float_eq b c \<Longrightarrow> float_eq a c"
  by (auto simp: float_eq_def)

lemma operator_eq_fields:
  "operator_eq a b \<longleftrightarrow>
     str a = str b \<and> float_eq (size_k a) (size_k b) \<and> align a = align b \<and>
     float_eq (breakRowWidth a) (breakRowWidth b)"
  by (simp add: operator_eq_def tie_def)

lemma operator_eq_sym: "operator_eq a b \<Longrightarrow> operator_eq b a"
  by (auto simp: operator_eq_fields dest: float_eq_sym)

lemma operator_eq_trans: "operator_eq a b \<Longrightarrow> operator_eq b c \<Longrightarrow> operator_eq a c"
  by (auto simp: operator_eq_fields dest: float_eq_trans)

lemma minus_one_neq_hundred: "\<not> float_eq float_minus_one float_hundred"
  by (simp add: float_eq_def float_minus_one_def float_hundred_def iszero_def)

lemma operator_eq_right_cong:
  "operator_eq k k' \<Longrightarrow> operator_eq a k \<longleftrightarrow> operator_eq a k'"
  by (blast intro: operator_eq_trans operator_eq_sym)

lemma operator_eq_common_left:
  "operator_eq a k \<Longrightarrow> operator_eq a k' \<Longrightarrow> operator_eq k k'"
  by (blast intro: operator_eq_trans operator_eq_sym)

lemma cache_find_put_other:
  assumes "\<not> operator_eq k k'"
  shows "cache_find (cache_put k v c) k' = cache_find c k'"
proof -
  have x: "\<not> operator_eq e k'" if "operator_eq e k" for e
    using assms that operator_eq_common_left by blast
  show ?thesis
    by (induction c) (auto dest: x simp: assms)
qed

lemma cache_find_put_same:
  assumes "operator_eq k k'"
  shows "cache_find (cache_put k v c) k' = Some v"
  using assms operator_eq_right_cong [OF assms] by (induction c) auto

lemma hash_respects_eq_sample: "hash_respects_eq sample_hash"
  by (auto simp: hash_respects_eq_def sample_hash_def float_eq_def)

lemma operator_eq_right_refl: "operator_eq a k \<Longrightarrow> operator_eq k k"
  by (blast intro: operator_eq_trans operator_eq_sym)



lemma isnan_qnan: "isnan float_qnan"
  by (simp add: isnan_def float_qnan_def)

lemma operator_eq_refl_iff:
  "operator_eq a a \<longleftrightarrow> \<not> isnan (size_k a) \<and> \<not> isnan (breakRowWidth a)"
  by (auto simp: operator_eq_fields float_eq_def)


lemma nan_key_not_refl: "\<not> operator_eq nan_key nan_key"
  by (simp add: operator_eq_refl_iff nan_key_def isnan_qnan)

lemma cache_find_not_refl: "\<not> operator_eq k k \<Longrightarrow> cache_find c k = None"
  by (induction c) (auto dest: operator_eq_right_refl)



text \<open>
  C9. Keys that compare equal hash alike, for every choice of library hashers that
  meets the standard's demand on \<^verbatim>\<open>std::hash<float>\<close>: the hash folds the hashes of
  the components of \<^verbatim>\<open>__tie\<close>, in the order in which \<^verbatim>\<open>operator==\<close> compares them.
\<close>

theorem hash_consistent_with_operator_eq:
  assumes "hash_respects_eq H" and "operator_eq a b"
  shows "hash_TextLayoutKey H a = hash_TextLayoutKey H b \<and>
         hash_TextLayoutKey H a =
           (case tie a of (s, z, al, w) \<Rightarrow>
              hash_combine 0 [hash_string H s, hash_float H z, hash_int H al, hash_float H w])"
proof -
  from assms(2) have f: "str a = str b" "float_eq (size_k a) (size_k b)" "align a = align b"
      "float_eq (breakRowWidth a) (breakRowWidth b)"
    by (simp_all add: operator_eq_fields)
  from assms(1) f(2) have z: "hash_float H (size_k a) = hash_float H (size_k b)"
    unfolding hash_respects_eq_def by blast
  from assms(1) f(4) have w: "hash_float H (breakRowWidth a) = hash_float H (breakRowWidth b)"
    unfolding hash_respects_eq_def by blast
  show ?thesis
    unfolding hash_TextLayoutKey_def tie_def using f(1,3) z w by simp
qed

text \<open>
  The same text at the same size, once with wrap width \<^verbatim>\<open>+0.0\<close> and once with
  \<^verbatim>\<open>-0.0\<close>: different bit patterns, equal keys, one hash.
\<close>

theorem hash_consistent_with_operator_eq_witness:
  "hash_respects_eq sample_hash \<and>
   operator_eq (sample_key\<lparr>breakRowWidth := 0\<rparr>) (sample_key\<lparr>breakRowWidth := 0x80000000\<rparr>) \<and>
   hash_TextLayoutKey sample_hash (sample_key\<lparr>breakRowWidth := 0\<rparr>) =
     hash_TextLayoutKey sample_hash (sample_key\<lparr>breakRowWidth := 0x80000000\<rparr>)"
proof -
  have e: "operator_eq (sample_key\<lparr>breakRowWidth := 0\<rparr>) (sample_key\<lparr>breakRowWidth := 0x80000000\<rparr>)"
    by (simp add: operator_eq_fields sample_key_def float_eq_def isnan_def iszero_def)
  from hash_consistent_with_operator_eq [OF hash_respects_eq_sample e]
  show ?thesis using hash_respects_eq_sample e by simp
qed

section \<open>The arenas of the header\<close>

lemma sint_succ:
  fixes c m :: "32 word"
  assumes "c <s m" shows "sint (c + 1) = sint c + 1"
proof -
  have "sint c < sint m" using assms by (simp add: word_sless_alt)
  moreover have "sint m < 2 ^ 31" using sint_lt [of m] by simp
  moreover have "- (2 ^ 31) \<le> sint c" using sint_ge [of c] by simp
  ultimately have "signed_take_bit 31 (sint c + 1) = sint c + 1"
    by (intro signed_take_bit_int_eq_self) auto
  then show ?thesis by (simp add: sint_word_add)
qed

lemma unat_eq_of_nat: "unat (w :: 'a::len word) = n \<Longrightarrow> w = of_nat n"
  by auto

lemma word_lt_3:
  fixes w :: "32 word"
  assumes "w < 3" shows "w = 0 \<or> w = 1 \<or> w = 2"
proof -
  from assms have "unat w < 3" by (simp add: word_less_nat_alt)
  then have "unat w = 0 \<or> unat w = 1 \<or> unat w = 2" by arith
  then show ?thesis
    using unat_eq_of_nat [of w 0] unat_eq_of_nat [of w 1] unat_eq_of_nat [of w 2] by fastforce
qed

lemma addCV_write:
  "cvCount s <s maxCvs s \<Longrightarrow>
   addCV p s = s\<lparr>cvMem := (cvMem s)(cvPtr s := p), cvPtr := cvPtr s + 1, cvCount := cvCount s + 1\<rparr>"
  by (simp add: addCV_def)

lemma addCV_full: "\<not> cvCount s <s maxCvs s \<Longrightarrow> addCV p s = s"
  by (simp add: addCV_def)

lemma addCV_maxCvs [simp]: "maxCvs (addCV p s) = maxCvs s"
  by (simp add: addCV_def)

lemma addCV_inv: "cvCount s \<le>s maxCvs s \<Longrightarrow> cvCount (addCV p s) \<le>s maxCvs s"
  using sint_succ [of "cvCount s" "maxCvs s"]
  by (auto simp: addCV_def word_sle_eq word_sless_alt)

lemma addCV_seq_maxCvs [simp]: "maxCvs (addCV_seq ps s) = maxCvs s"
  by (induction ps arbitrary: s) auto

lemma addCV_seq_inv: "cvCount s \<le>s maxCvs s \<Longrightarrow> cvCount (addCV_seq ps s) \<le>s maxCvs s"
proof (induction ps arbitrary: s)
  case Nil
  then show ?case by simp
next
  case (Cons p ps)
  from Cons.prems have "cvCount (addCV p s) \<le>s maxCvs (addCV p s)"
    by (simp add: addCV_inv)
  from Cons.IH [OF this] show ?case by simp
qed

lemma addCV_seq_count:
  "cvCount s \<le>s maxCvs s \<Longrightarrow>
   sint (cvCount (addCV_seq ps s)) = min (sint (cvCount s) + int (length ps)) (sint (maxCvs s))"
proof (induction ps arbitrary: s)
  case Nil
  then show ?case by (simp add: word_sle_eq)
next
  case (Cons p ps)
  show ?case
  proof (cases "cvCount s <s maxCvs s")
    case True
    have "sint (cvCount (addCV p s)) = sint (cvCount s) + 1"
      using True sint_succ [OF True] by (simp add: addCV_def)
    moreover have "cvCount (addCV p s) \<le>s maxCvs (addCV p s)"
      using Cons.prems by (simp add: addCV_inv)
    ultimately show ?thesis
      using Cons.IH [of "addCV p s"] by simp
  next
    case False
    then have "addCV p s = s" by (simp add: addCV_def)
    moreover have "sint (cvCount s) = sint (maxCvs s)"
      using False Cons.prems by (simp add: word_sle_eq word_sless_alt)
    ultimately show ?thesis
      using Cons.IH [of s] Cons.prems by simp
  qed
qed

lemma addCV_seq_ptr:
  "cvCount s \<le>s maxCvs s \<Longrightarrow>
   int (cvPtr (addCV_seq ps s)) = int (cvPtr s) + min (int (length ps)) (sint (maxCvs s) - sint (cvCount s))"
proof (induction ps arbitrary: s)
  case Nil
  then show ?case by (simp add: word_sle_eq)
next
  case (Cons p ps)
  show ?case
  proof (cases "cvCount s <s maxCvs s")
    case True
    have "sint (cvCount (addCV p s)) = sint (cvCount s) + 1" "cvPtr (addCV p s) = cvPtr s + 1"
      using True sint_succ [OF True] by (simp_all add: addCV_def)
    moreover have "cvCount (addCV p s) \<le>s maxCvs (addCV p s)"
      using Cons.prems by (simp add: addCV_inv)
    ultimately show ?thesis
      using Cons.IH [of "addCV p s"] True by (simp add: word_sless_alt)
  next
    case False
    then have "addCV p s = s" by (simp add: addCV_def)
    moreover have "sint (cvCount s) = sint (maxCvs s)"
      using False Cons.prems by (simp add: word_sle_eq word_sless_alt)
    ultimately show ?thesis
      using Cons.IH [of s] Cons.prems by simp
  qed
qed

lemma xform_guard: "maxPrims s = 65536 \<Longrightarrow> uint (xformCount s) < sint (maxPrims s)"
  using uint_lt2p [of "xformCount s"] by simp

lemma paint_guard: "maxPrims s = 65536 \<Longrightarrow> uint (paintCount s) < sint (maxPrims s)"
  using uint_lt2p [of "paintCount s"] by simp

lemma addxform_65536:
  "maxPrims s = 65536 \<Longrightarrow>
   addxform M s =
     (xformCount s,
      s\<lparr>xformMem := (xformMem s)(xformPtr s := M), xformPtr := xformPtr s + 1,
        xformCount := xformCount s + 1\<rparr>)"
  using xform_guard [of s] by (simp add: addxform_def)

lemma addPaint_65536:
  "maxPrims s = 65536 \<Longrightarrow>
   addPaint P s =
     (paintCount s,
      s\<lparr>paintMem := (paintMem s)(paintPtr s := P), paintPtr := paintPtr s + 1,
        paintCount := paintCount s + 1\<rparr>)"
  using paint_guard [of s] by (simp add: addPaint_def)

lemma addxform_seq_65536:
  "maxPrims s = 65536 \<Longrightarrow>
   length (fst (addxform_seq Ms s)) = length Ms \<and>
   (\<forall>i < length Ms. fst (addxform_seq Ms s) ! i = xformCount s + of_nat i) \<and>
   xformPtr (snd (addxform_seq Ms s)) = xformPtr s + length Ms \<and>
   xformCount (snd (addxform_seq Ms s)) = xformCount s + of_nat (length Ms) \<and>
   maxPrims (snd (addxform_seq Ms s)) = 65536 \<and>
   (\<forall>i < length Ms. xformMem (snd (addxform_seq Ms s)) (xformPtr s + i) = Ms ! i) \<and>
   (\<forall>a. a < xformPtr s \<or> xformPtr s + length Ms \<le> a \<longrightarrow> xformMem (snd (addxform_seq Ms s)) a = xformMem s a)"
proof (induction Ms arbitrary: s)
  case Nil
  then show ?case by simp
next
  case (Cons M Ms)
  let ?s1 = "s\<lparr>xformMem := (xformMem s)(xformPtr s := M), xformPtr := xformPtr s + 1,
        xformCount := xformCount s + 1\<rparr>"
  have step: "addxform M s = (xformCount s, ?s1)"
    using Cons.prems by (rule addxform_65536)
  have m1: "maxPrims ?s1 = 65536" using Cons.prems by simp
  note IH = Cons.IH [OF m1]
  obtain js s2 where r: "addxform_seq Ms ?s1 = (js, s2)" by (cases "addxform_seq Ms ?s1")
  have whole: "addxform_seq (M # Ms) s = (xformCount s # js, s2)"
    using r by (simp add: step)
  from IH r have len: "length js = length Ms"
    and idx: "\<And>i. i < length Ms \<Longrightarrow> js ! i = xformCount s + 1 + of_nat i"
    and ptr: "xformPtr s2 = xformPtr s + 1 + length Ms"
    and cnt: "xformCount s2 = xformCount s + 1 + of_nat (length Ms)"
    and mx: "maxPrims s2 = 65536"
    and mem: "\<And>i. i < length Ms \<Longrightarrow> xformMem s2 (xformPtr s + 1 + i) = Ms ! i"
    and other: "\<And>a. a < xformPtr s + 1 \<or> xformPtr s + 1 + length Ms \<le> a \<Longrightarrow> xformMem s2 a = xformMem ?s1 a"
    by auto
  have i: "(xformCount s # js) ! i = xformCount s + of_nat i" if "i < length (M # Ms)" for i
    using that idx [of "i - 1"] by (cases i) simp_all
  have m: "xformMem s2 (xformPtr s + i) = (M # Ms) ! i" if "i < length (M # Ms)" for i
  proof (cases i)
    case 0
    then show ?thesis using other [of "xformPtr s"] by simp
  next
    case (Suc j)
    then show ?thesis using that mem [of j] by simp
  qed
  have o: "xformMem s2 a = xformMem s a" if "a < xformPtr s \<or> xformPtr s + length (M # Ms) \<le> a" for a
    using that other [of a] by auto
  show ?case
    unfolding whole using len i ptr cnt mx m o by simp
qed

lemma addPaint_seq_65536:
  "maxPrims s = 65536 \<Longrightarrow>
   length (fst (addPaint_seq Ps s)) = length Ps \<and>
   (\<forall>i < length Ps. fst (addPaint_seq Ps s) ! i = paintCount s + of_nat i) \<and>
   paintPtr (snd (addPaint_seq Ps s)) = paintPtr s + length Ps \<and>
   paintCount (snd (addPaint_seq Ps s)) = paintCount s + of_nat (length Ps) \<and>
   maxPrims (snd (addPaint_seq Ps s)) = 65536 \<and>
   (\<forall>i < length Ps. paintMem (snd (addPaint_seq Ps s)) (paintPtr s + i) = Ps ! i) \<and>
   (\<forall>a. a < paintPtr s \<or> paintPtr s + length Ps \<le> a \<longrightarrow> paintMem (snd (addPaint_seq Ps s)) a = paintMem s a)"
proof (induction Ps arbitrary: s)
  case Nil
  then show ?case by simp
next
  case (Cons P Ps)
  let ?s1 = "s\<lparr>paintMem := (paintMem s)(paintPtr s := P), paintPtr := paintPtr s + 1,
        paintCount := paintCount s + 1\<rparr>"
  have step: "addPaint P s = (paintCount s, ?s1)"
    using Cons.prems by (rule addPaint_65536)
  have m1: "maxPrims ?s1 = 65536" using Cons.prems by simp
  note IH = Cons.IH [OF m1]
  obtain js s2 where r: "addPaint_seq Ps ?s1 = (js, s2)" by (cases "addPaint_seq Ps ?s1")
  have whole: "addPaint_seq (P # Ps) s = (paintCount s # js, s2)"
    using r by (simp add: step)
  from IH r have len: "length js = length Ps"
    and idx: "\<And>i. i < length Ps \<Longrightarrow> js ! i = paintCount s + 1 + of_nat i"
    and ptr: "paintPtr s2 = paintPtr s + 1 + length Ps"
    and cnt: "paintCount s2 = paintCount s + 1 + of_nat (length Ps)"
    and mx: "maxPrims s2 = 65536"
    and mem: "\<And>i. i < length Ps \<Longrightarrow> paintMem s2 (paintPtr s + 1 + i) = Ps ! i"
    and other: "\<And>a. a < paintPtr s + 1 \<or> paintPtr s + 1 + length Ps \<le> a \<Longrightarrow> paintMem s2 a = paintMem ?s1 a"
    by auto
  have i: "(paintCount s # js) ! i = paintCount s + of_nat i" if "i < length (P # Ps)" for i
    using that idx [of "i - 1"] by (cases i) simp_all
  have m: "paintMem s2 (paintPtr s + i) = (P # Ps) ! i" if "i < length (P # Ps)" for i
  proof (cases i)
    case 0
    then show ?thesis using other [of "paintPtr s"] by simp
  next
    case (Suc j)
    then show ?thesis using that mem [of j] by simp
  qed
  have o: "paintMem s2 a = paintMem s a" if "a < paintPtr s \<or> paintPtr s + length (P # Ps) \<le> a" for a
    using that other [of a] by auto
  show ?case
    unfolding whole using len i ptr cnt mx m o by simp
qed

text \<open>
  C5. A call of \<^verbatim>\<open>addCV\<close> made while \<^verbatim>\<open>cvCount < maxCvs\<close> stores the point at the
  cursor and advances the cursor and the count by one, the count without wrapping. A
  call made when the count has reached \<^verbatim>\<open>maxCvs\<close> returns the state as it was. In both
  cases every address but the cursor's keeps its content. Hence over every sequence of
  calls the count stays at or below \<^verbatim>\<open>maxCvs\<close>: it ends at the smaller of the capacity
  and the start count plus the number of calls, and the cursor has moved by the
  number of points that fitted.
\<close>

theorem addCV_within_capacity:
  "(cvCount s <s maxCvs s \<longrightarrow>
      addCV p s =
        s\<lparr>cvMem := (cvMem s)(cvPtr s := p), cvPtr := cvPtr s + 1, cvCount := cvCount s + 1\<rparr> \<and>
      sint (cvCount (addCV p s)) = sint (cvCount s) + 1) \<and>
   (\<not> cvCount s <s maxCvs s \<longrightarrow> addCV p s = s) \<and>
   (\<forall>a. a \<noteq> cvPtr s \<longrightarrow> cvMem (addCV p s) a = cvMem s a) \<and>
   (cvCount s \<le>s maxCvs s \<longrightarrow>
      cvCount (addCV_seq ps s) \<le>s maxCvs (addCV_seq ps s) \<and>
      maxCvs (addCV_seq ps s) = maxCvs s \<and>
      sint (cvCount (addCV_seq ps s)) =
        min (sint (cvCount s) + int (length ps)) (sint (maxCvs s)) \<and>
      int (cvPtr (addCV_seq ps s)) =
        int (cvPtr s) + min (int (length ps)) (sint (maxCvs s) - sint (cvCount s)))"
proof (intro conjI impI allI)
  assume g: "cvCount s <s maxCvs s"
  show "addCV p s =
      s\<lparr>cvMem := (cvMem s)(cvPtr s := p), cvPtr := cvPtr s + 1, cvCount := cvCount s + 1\<rparr>"
    using g by (rule addCV_write)
  show "sint (cvCount (addCV p s)) = sint (cvCount s) + 1"
    using sint_succ [OF g] g by (simp add: addCV_def)
next
  assume "\<not> cvCount s <s maxCvs s"
  then show "addCV p s = s" by (rule addCV_full)
next
  fix a assume "a \<noteq> cvPtr s"
  then show "cvMem (addCV p s) a = cvMem s a" by (simp add: addCV_def)
next
  assume i: "cvCount s \<le>s maxCvs s"
  show "cvCount (addCV_seq ps s) \<le>s maxCvs (addCV_seq ps s)"
    using addCV_seq_inv [OF i] by simp
  show "maxCvs (addCV_seq ps s) = maxCvs s" by simp
  show "sint (cvCount (addCV_seq ps s)) =
      min (sint (cvCount s) + int (length ps)) (sint (maxCvs s))"
    using i by (rule addCV_seq_count)
  show "int (cvPtr (addCV_seq ps s)) =
      int (cvPtr s) + min (int (length ps)) (sint (maxCvs s) - sint (cvCount s))"
    using i by (rule addCV_seq_ptr)
qed

text \<open>
  With room for four control vertices: the first point lands at the cursor; five
  points leave the count at four; on the full arena a further call changes nothing.
\<close>

theorem addCV_within_capacity_witness:
  "cvCount tiny_vger <s maxCvs tiny_vger \<and>
   cvMem (addCV (1, 2) tiny_vger) (cvPtr tiny_vger) = (1, 2) \<and>
   sint (cvCount (addCV (1, 2) tiny_vger)) = 1 \<and>
   cvPtr (addCV (1, 2) tiny_vger) = 1 \<and>
   (7::nat) \<noteq> cvPtr tiny_vger \<and>
   cvMem (addCV (1, 2) tiny_vger) 7 = cvMem tiny_vger 7 \<and>
   cvCount tiny_vger \<le>s maxCvs tiny_vger \<and>
   sint (cvCount (addCV_seq [(1, 1), (2, 2), (3, 3), (4, 4), (5, 5)] tiny_vger)) = 4 \<and>
   cvPtr (addCV_seq [(1, 1), (2, 2), (3, 3), (4, 4), (5, 5)] tiny_vger) = 4 \<and>
   \<not> cvCount (tiny_vger\<lparr>cvCount := 4, cvPtr := 4\<rparr>) <s maxCvs (tiny_vger\<lparr>cvCount := 4, cvPtr := 4\<rparr>) \<and>
   addCV (9, 9) (tiny_vger\<lparr>cvCount := 4, cvPtr := 4\<rparr>) = tiny_vger\<lparr>cvCount := 4, cvPtr := 4\<rparr>"
proof -
  have a: "cvCount tiny_vger <s maxCvs tiny_vger" "cvCount tiny_vger \<le>s maxCvs tiny_vger"
      "cvCount tiny_vger = 0" "maxCvs tiny_vger = 4" "cvPtr tiny_vger = 0"
    by (simp_all add: tiny_vger_def sample_vger_def default_members_def word_sless_alt word_sle_eq)
  have b: "\<not> cvCount (tiny_vger\<lparr>cvCount := 4, cvPtr := 4\<rparr>) <s maxCvs (tiny_vger\<lparr>cvCount := 4, cvPtr := 4\<rparr>)"
    by (simp add: a word_sless_alt)
  show ?thesis
    using a b
      addCV_within_capacity [of tiny_vger "(1, 2)" "[(1, 1), (2, 2), (3, 3), (4, 4), (5, 5)]"]
      addCV_within_capacity [of "tiny_vger\<lparr>cvCount := 4, cvPtr := 4\<rparr>" "(9, 9)" "[]"]
    by simp
qed

text \<open>
  C7. The default member initializers give \<^verbatim>\<open>maxPrims = 65536\<close> and
  \<^verbatim>\<open>maxCvs = 1024*1024 = 1048576\<close>. The transform arena and the paint arena have no
  bound of their own: \<^verbatim>\<open>addxform\<close> and \<^verbatim>\<open>addPaint\<close> store exactly when their count is
  below \<^verbatim>\<open>maxPrims\<close>, as \<^verbatim>\<open>addCV\<close> stores exactly when its count is below \<^verbatim>\<open>maxCvs\<close>.
\<close>

theorem arena_capacities:
  "sint (maxPrims (default_members u)) = 65536 \<and>
   sint (maxCvs (default_members u)) = 1024 * 1024 \<and>
   sint (maxCvs (default_members u)) = 1048576 \<and>
   (snd (addxform M s) \<noteq> s \<longleftrightarrow> uint (xformCount s) < sint (maxPrims s)) \<and>
   (snd (addPaint P s) \<noteq> s \<longleftrightarrow> uint (paintCount s) < sint (maxPrims s)) \<and>
   (addCV p s \<noteq> s \<longleftrightarrow> sint (cvCount s) < sint (maxCvs s))"
proof -
  have neq: "s\<lparr>xformMem := f, xformPtr := xformPtr s + 1, xformCount := c\<rparr> \<noteq> s"
      "s\<lparr>paintMem := g, paintPtr := paintPtr s + 1, paintCount := c\<rparr> \<noteq> s"
      "s\<lparr>cvMem := h, cvPtr := cvPtr s + 1, cvCount := d\<rparr> \<noteq> s" for f g h c d
  proof -
    show "s\<lparr>xformMem := f, xformPtr := xformPtr s + 1, xformCount := c\<rparr> \<noteq> s"
    proof
      assume "s\<lparr>xformMem := f, xformPtr := xformPtr s + 1, xformCount := c\<rparr> = s"
      then have "xformPtr (s\<lparr>xformMem := f, xformPtr := xformPtr s + 1, xformCount := c\<rparr>) = xformPtr s"
        by simp
      then show False by simp
    qed
    show "s\<lparr>paintMem := g, paintPtr := paintPtr s + 1, paintCount := c\<rparr> \<noteq> s"
    proof
      assume "s\<lparr>paintMem := g, paintPtr := paintPtr s + 1, paintCount := c\<rparr> = s"
      then have "paintPtr (s\<lparr>paintMem := g, paintPtr := paintPtr s + 1, paintCount := c\<rparr>) = paintPtr s"
        by simp
      then show False by simp
    qed
    show "s\<lparr>cvMem := h, cvPtr := cvPtr s + 1, cvCount := d\<rparr> \<noteq> s"
    proof
      assume "s\<lparr>cvMem := h, cvPtr := cvPtr s + 1, cvCount := d\<rparr> = s"
      then have "cvPtr (s\<lparr>cvMem := h, cvPtr := cvPtr s + 1, cvCount := d\<rparr>) = cvPtr s"
        by simp
      then show False by simp
    qed
  qed
  show ?thesis
    using neq by (simp add: default_members_def addxform_def addPaint_def addCV_def word_sless_alt)
qed

text \<open>
  C8. With \<^verbatim>\<open>maxPrims = 65536\<close> the guards \<^verbatim>\<open>xformCount < maxPrims\<close> and
  \<^verbatim>\<open>paintCount < maxPrims\<close> hold for every value a 16-bit counter can take. So
  \<^verbatim>\<open>addxform\<close> and \<^verbatim>\<open>addPaint\<close> always take the storing branch: they store at the cursor,
  advance it and return the old count. Over a sequence of calls that starts with the
  count at zero, the call that has \<open>i\<close> calls before it returns \<open>i mod 2 ^ 16\<close>, and the
  cursor has moved by the number of calls.
\<close>

theorem counter_guard_always_true:
  assumes "maxPrims s = 65536"
  shows "(\<forall>c :: uint16_t. uint c < sint (maxPrims s)) \<and>
    addxform M s =
      (xformCount s,
       s\<lparr>xformMem := (xformMem s)(xformPtr s := M), xformPtr := xformPtr s + 1,
         xformCount := xformCount s + 1\<rparr>) \<and>
    addPaint P s =
      (paintCount s,
       s\<lparr>paintMem := (paintMem s)(paintPtr s := P), paintPtr := paintPtr s + 1,
         paintCount := paintCount s + 1\<rparr>) \<and>
    (xformCount s = 0 \<longrightarrow>
       (\<forall>i < length Ms. unat (fst (addxform_seq Ms s) ! i) = i mod 2 ^ 16)) \<and>
    xformPtr (snd (addxform_seq Ms s)) = xformPtr s + length Ms \<and>
    (\<forall>i < length Ms. xformMem (snd (addxform_seq Ms s)) (xformPtr s + i) = Ms ! i) \<and>
    (paintCount s = 0 \<longrightarrow>
       (\<forall>i < length Ps. unat (fst (addPaint_seq Ps s) ! i) = i mod 2 ^ 16)) \<and>
    paintPtr (snd (addPaint_seq Ps s)) = paintPtr s + length Ps \<and>
    (\<forall>i < length Ps. paintMem (snd (addPaint_seq Ps s)) (paintPtr s + i) = Ps ! i)"
proof -
  have g: "uint c < sint (maxPrims s)" for c :: uint16_t
    using uint_lt2p [of c] assms by simp
  note x = addxform_seq_65536 [OF assms, of Ms]
  note y = addPaint_seq_65536 [OF assms, of Ps]
  have xi: "unat (fst (addxform_seq Ms s) ! i) = i mod 2 ^ 16"
    if "xformCount s = 0" "i < length Ms" for i
    using x that by (simp add: unat_of_nat)
  have yi: "unat (fst (addPaint_seq Ps s) ! i) = i mod 2 ^ 16"
    if "paintCount s = 0" "i < length Ps" for i
    using y that by (simp add: unat_of_nat)
  show ?thesis
    using g addxform_65536 [OF assms, of M] addPaint_65536 [OF assms, of P] xi yi x y
    by simp
qed

text \<open>Three transforms and two paints on the default state: indices 0, 1, 2 and 0, 1.\<close>

theorem counter_guard_always_true_witness:
  "maxPrims sample_vger = 65536 \<and> xformCount sample_vger = 0 \<and> paintCount sample_vger = 0 \<and>
   fst (addxform zero3x3 sample_vger) = 0 \<and>
   xformPtr (snd (addxform zero3x3 sample_vger)) = 1 \<and>
   unat (fst (addxform_seq [zero3x3, zero3x3, zero3x3] sample_vger) ! 2) = 2 \<and>
   xformPtr (snd (addxform_seq [zero3x3, zero3x3, zero3x3] sample_vger)) = 3 \<and>
   unat (fst (addPaint_seq [5, 6] sample_vger) ! 1) = 1 \<and>
   paintPtr (snd (addPaint_seq [5, 6] sample_vger)) = 2 \<and>
   paintMem (snd (addPaint_seq [5, 6] sample_vger)) 1 = 6"
proof -
  have a: "maxPrims sample_vger = 65536" "xformCount sample_vger = 0"
      "paintCount sample_vger = 0" "xformPtr sample_vger = 0" "paintPtr sample_vger = 0"
    by (simp_all add: sample_vger_def default_members_def)
  note t = counter_guard_always_true [OF a(1), of zero3x3 5 "[zero3x3, zero3x3, zero3x3]" "[5, 6]"]
  from t a(2) have "\<forall>i < length [zero3x3, zero3x3, zero3x3].
      unat (fst (addxform_seq [zero3x3, zero3x3, zero3x3] sample_vger) ! i) = i mod 2 ^ 16"
    by blast
  from this [rule_format, of 2]
  have x2: "unat (fst (addxform_seq [zero3x3, zero3x3, zero3x3] sample_vger) ! 2) = 2"
    by (simp del: addxform_seq.simps)
  from t a(3) have "\<forall>i < length [5, 6 :: nat].
      unat (fst (addPaint_seq [5, 6] sample_vger) ! i) = i mod 2 ^ 16"
    by blast
  from this [rule_format, of 1]
  have p1: "unat (fst (addPaint_seq [5, 6] sample_vger) ! 1) = 1"
    by (simp del: addPaint_seq.simps)
  from t have "\<forall>i < length [5, 6 :: nat].
      paintMem (snd (addPaint_seq [5, 6] sample_vger)) (paintPtr sample_vger + i) = [5, 6] ! i"
    by blast
  from this [rule_format, of 1]
  have m1: "paintMem (snd (addPaint_seq [5, 6] sample_vger)) 1 = 6"
    using a(5) by (simp del: addPaint_seq.simps)
  from t have xp: "xformPtr (snd (addxform_seq [zero3x3, zero3x3, zero3x3] sample_vger)) = 3"
    and pp: "paintPtr (snd (addPaint_seq [5, 6] sample_vger)) = 2"
    using a(4,5) by (simp_all del: addxform_seq.simps addPaint_seq.simps)
  from t have one: "fst (addxform zero3x3 sample_vger) = 0"
      "xformPtr (snd (addxform zero3x3 sample_vger)) = 1"
    using a(2,4) by simp_all
  from a(1,2,3) one x2 xp p1 pp m1 show ?thesis
    by (simp del: addxform_seq.simps addPaint_seq.simps)
qed

text \<open>
  C1, evaluated where it fails. From the default members, 65537 calls of \<^verbatim>\<open>addxform\<close>:
  after 65536 calls the 16-bit count is back at 0, so the last call still passes the
  guard against \<^verbatim>\<open>maxPrims = 65536\<close>. It stores at the address 65536 elements past
  the cursor's start, returns index 0, and leaves the cursor 65537 elements on and the
  count at 1. The same holds of \<^verbatim>\<open>addPaint\<close>.
\<close>

theorem addxform_cursor_passes_capacity:
  "sint (maxPrims (default_members u)) = 65536 \<and>
   fst (addxform_seq (replicate 65537 M) (default_members u)) ! 65536 = 0 \<and>
   xformMem (snd (addxform_seq (replicate 65537 M) (default_members u)))
     (xformPtr (default_members u) + 65536) = M \<and>
   xformPtr (snd (addxform_seq (replicate 65537 M) (default_members u))) =
     xformPtr (default_members u) + 65537 \<and>
   xformCount (snd (addxform_seq (replicate 65537 M) (default_members u))) = 1 \<and>
   fst (addPaint_seq (replicate 65537 P) (default_members u)) ! 65536 = 0 \<and>
   paintMem (snd (addPaint_seq (replicate 65537 P) (default_members u)))
     (paintPtr (default_members u) + 65536) = P \<and>
   paintPtr (snd (addPaint_seq (replicate 65537 P) (default_members u))) =
     paintPtr (default_members u) + 65537 \<and>
   paintCount (snd (addPaint_seq (replicate 65537 P) (default_members u))) = 1"
proof -
  let ?s = "default_members u"
  have m: "maxPrims ?s = 65536" and c: "xformCount ?s = 0" and d: "paintCount ?s = 0"
    by (simp_all add: default_members_def)
  note x = addxform_seq_65536 [OF m, of "replicate 65537 M"]
  note y = addPaint_seq_65536 [OF m, of "replicate 65537 P"]
  have lx: "(65536::nat) < length (replicate 65537 M)"
    and ly: "(65536::nat) < length (replicate 65537 P)" by simp_all
  from x lx have "fst (addxform_seq (replicate 65537 M) ?s) ! 65536 = xformCount ?s + of_nat 65536"
    by blast
  then have xi: "fst (addxform_seq (replicate 65537 M) ?s) ! 65536 = 0"
    using c by simp
  from x lx have "xformMem (snd (addxform_seq (replicate 65537 M) ?s)) (xformPtr ?s + 65536) =
      replicate 65537 M ! 65536"
    by blast
  then have xw: "xformMem (snd (addxform_seq (replicate 65537 M) ?s)) (xformPtr ?s + 65536) = M"
    by simp
  from x have xp: "xformPtr (snd (addxform_seq (replicate 65537 M) ?s)) = xformPtr ?s + 65537"
    by simp
  from x have xn: "xformCount (snd (addxform_seq (replicate 65537 M) ?s)) = 1"
    using c by simp
  from y ly have "fst (addPaint_seq (replicate 65537 P) ?s) ! 65536 = paintCount ?s + of_nat 65536"
    by blast
  then have yi: "fst (addPaint_seq (replicate 65537 P) ?s) ! 65536 = 0"
    using d by simp
  from y ly have "paintMem (snd (addPaint_seq (replicate 65537 P) ?s)) (paintPtr ?s + 65536) =
      replicate 65537 P ! 65536"
    by blast
  then have yw: "paintMem (snd (addPaint_seq (replicate 65537 P) ?s)) (paintPtr ?s + 65536) = P"
    by simp
  from y have yp: "paintPtr (snd (addPaint_seq (replicate 65537 P) ?s)) = paintPtr ?s + 65537"
    by simp
  from y have yn: "paintCount (snd (addPaint_seq (replicate 65537 P) ?s)) = 1"
    using d by simp
  from m xi xw xp xn yi yw yp yn show ?thesis by simp
qed

section \<open>The scene buffers\<close>

lemma advance_cache [simp]:
  "textCache (advance s) = textCache s" "currentFrame (advance s) = currentFrame s"
  "scenes (advance s) = scenes s"
  by (simp_all add: advance_def Let_def)

lemma advance_counts:
  "primCount (advance s) = 0" "cvCount (advance s) = 0" "xformCount (advance s) = 0"
  "paintCount (advance s) = 0" "curBuffer (advance s) = (curBuffer s + 1) mod 3"
  "primPtr (advance s) = primBuf (scene_at (scenes s) ((curBuffer s + 1) mod 3))"
  "cvPtr (advance s) = cvBuf (scene_at (scenes s) ((curBuffer s + 1) mod 3))"
  "xformPtr (advance s) = xformBuf (scene_at (scenes s) ((curBuffer s + 1) mod 3))"
  "paintPtr (advance s) = paintBuf (scene_at (scenes s) ((curBuffer s + 1) mod 3))"
  by (simp_all add: advance_def Let_def)

lemma index_cycle:
  fixes w :: cint
  assumes "w < 3"
  shows "(((w + 1) mod 3 + 1) mod 3 + 1) mod 3 = w" "(w + 1) mod 3 \<noteq> w"
    "((w + 1) mod 3 + 1) mod 3 \<noteq> w" "((w + 1) mod 3 + 1) mod 3 \<noteq> (w + 1) mod 3"
    "(w + 1) mod 3 < 3"
proof -
  have c: "((0::cint) + 1) mod 3 = 1" "((1::cint) + 1) mod 3 = 2" "((2::cint) + 1) mod 3 = 0"
    by (simp_all add: word_mod_def)
  note w = word_lt_3 [OF assms]
  show "(((w + 1) mod 3 + 1) mod 3 + 1) mod 3 = w"
    using w by (elim disjE; simp only: c)
  show "(w + 1) mod 3 \<noteq> w"
    using w by (elim disjE; simp only: c; simp)
  show "((w + 1) mod 3 + 1) mod 3 \<noteq> w"
    using w by (elim disjE; simp only: c; simp)
  show "((w + 1) mod 3 + 1) mod 3 \<noteq> (w + 1) mod 3"
    using w by (elim disjE; simp only: c; simp)
  show "(w + 1) mod 3 < 3"
    using w by (elim disjE; simp only: c; simp)
qed

text \<open>
  C6. \<^verbatim>\<open>scenes\<close> has three elements, and \<open>advance\<close> moves the buffer index to
  \<open>(curBuffer + 1) mod 3\<close>. From each of the three indices 0, 1, 2 the next two indices
  differ from the start and from each other, and the third call is back at the start:
  there the four counts are zero and the four cursors are at the start of that
  scene's buffers.
\<close>

theorem advance_period_three:
  assumes "curBuffer s < 3"
  shows "(scene_at (a, b, c) 0 = a \<and> scene_at (a, b, c) 1 = b \<and> scene_at (a, b, c) 2 = c) \<and>
    curBuffer (advance s) = (curBuffer s + 1) mod 3 \<and>
    curBuffer (advance s) < 3 \<and>
    curBuffer (advance s) \<noteq> curBuffer s \<and>
    curBuffer (advance (advance s)) \<noteq> curBuffer s \<and>
    curBuffer (advance (advance s)) \<noteq> curBuffer (advance s) \<and>
    curBuffer (advance (advance (advance s))) = curBuffer s \<and>
    primCount (advance (advance (advance s))) = 0 \<and>
    cvCount (advance (advance (advance s))) = 0 \<and>
    xformCount (advance (advance (advance s))) = 0 \<and>
    paintCount (advance (advance (advance s))) = 0 \<and>
    primPtr (advance (advance (advance s))) = primBuf (scene_at (scenes s) (curBuffer s)) \<and>
    cvPtr (advance (advance (advance s))) = cvBuf (scene_at (scenes s) (curBuffer s)) \<and>
    xformPtr (advance (advance (advance s))) = xformBuf (scene_at (scenes s) (curBuffer s)) \<and>
    paintPtr (advance (advance (advance s))) = paintBuf (scene_at (scenes s) (curBuffer s))"
  using index_cycle [OF assms] by (simp add: advance_counts scene_at_def)

text \<open>One control vertex in buffer 0, then three calls: indices 1, 2, 0 and an empty arena.\<close>

theorem advance_period_three_witness:
  "curBuffer (addCV (1, 2) sample_vger) < 3 \<and>
   sint (cvCount (addCV (1, 2) sample_vger)) = 1 \<and>
   curBuffer (advance (addCV (1, 2) sample_vger)) = 1 \<and>
   curBuffer (advance (advance (addCV (1, 2) sample_vger))) = 2 \<and>
   curBuffer (advance (advance (advance (addCV (1, 2) sample_vger)))) = 0 \<and>
   cvCount (advance (advance (advance (addCV (1, 2) sample_vger)))) = 0"
proof -
  have a: "curBuffer (addCV (1, 2) sample_vger) = 0" "sint (cvCount (addCV (1, 2) sample_vger)) = 1"
    by (simp_all add: addCV_def sample_vger_def default_members_def word_sless_alt)
  then have lt: "curBuffer (addCV (1, 2) sample_vger) < 3" by simp
  have m: "((0::cint) + 1) mod 3 = 1" "((1::cint) + 1) mod 3 = 2"
    by (simp_all add: word_mod_def)
  note t = advance_period_three [OF lt]
  from t have c1: "curBuffer (advance (addCV (1, 2) sample_vger)) = 1"
    by (simp only: a m)
  have c2: "curBuffer (advance (advance (addCV (1, 2) sample_vger))) = 2"
    using c1 m by (simp add: advance_counts)
  from t have c3: "curBuffer (advance (advance (advance (addCV (1, 2) sample_vger)))) = 0"
    and z: "cvCount (advance (advance (advance (addCV (1, 2) sample_vger)))) = 0"
    by (simp_all only: a)
  from lt a c1 c2 c3 z show ?thesis by simp
qed

section \<open>The text cache\<close>

lemma addPrim_room:
  assumes "primCount s <s maxPrims s"
  shows "0 < prim_room s" "prim_room (addPrim pr s) = prim_room s - 1"
    "sint (primCount (addPrim pr s)) = sint (primCount s) + 1"
    "addPrim pr s = s\<lparr>primMem := (primMem s)(primPtr s := pr), primPtr := primPtr s + 1,
             primCount := primCount s + 1\<rparr>"
proof -
  have lt: "sint (primCount s) < sint (maxPrims s)"
    using assms by (simp add: word_sless_alt)
  then show "0 < prim_room s" by (simp add: prim_room_def)
  show e: "addPrim pr s = s\<lparr>primMem := (primMem s)(primPtr s := pr), primPtr := primPtr s + 1,
             primCount := primCount s + 1\<rparr>"
    using assms by (simp add: addPrim_def)
  show c: "sint (primCount (addPrim pr s)) = sint (primCount s) + 1"
    using sint_succ [OF assms] by (simp add: e)
  show "prim_room (addPrim pr s) = prim_room s - 1"
    using lt c by (simp add: prim_room_def e)
qed

lemma addPrim_full:
  assumes "\<not> primCount s <s maxPrims s"
  shows "prim_room s = 0" "addPrim pr s = s"
  using assms by (simp_all add: prim_room_def addPrim_def word_sless_alt)

lemma copy_prims_effect:
  "primPtr (copy_prims ph xh prs s) = primPtr s + min (length prs) (prim_room s) \<and>
   sint (primCount (copy_prims ph xh prs s)) =
     sint (primCount s) + int (min (length prs) (prim_room s)) \<and>
   (\<forall>i < min (length prs) (prim_room s).
      primMem (copy_prims ph xh prs s) (primPtr s + i) = (prs ! i)\<lparr>paint := ph, xform := xh\<rparr>) \<and>
   (\<forall>a. a < primPtr s \<or> primPtr s + min (length prs) (prim_room s) \<le> a \<longrightarrow>
      primMem (copy_prims ph xh prs s) a = primMem s a) \<and>
   copy_prims ph xh prs s =
     s\<lparr>primMem := primMem (copy_prims ph xh prs s), primPtr := primPtr (copy_prims ph xh prs s),
       primCount := primCount (copy_prims ph xh prs s)\<rparr>"
proof (induction prs arbitrary: s)
  case Nil
  show ?case by simp
next
  case (Cons pr prs)
  let ?pr = "pr\<lparr>paint := ph, xform := xh\<rparr>"
  let ?s1 = "addPrim ?pr s"
  let ?r = "copy_prims ph xh prs ?s1"
  let ?n1 = "min (length prs) (prim_room ?s1)"
  let ?n = "min (length (pr # prs)) (prim_room s)"
  note IH = Cons.IH [of ?s1]
  have r: "copy_prims ph xh (pr # prs) s = ?r" by simp
  show ?case
  proof (cases "primCount s <s maxPrims s")
    case True
    note a = addPrim_room [OF True]
    have n: "?n = Suc ?n1" using a(1,2) by (cases "prim_room s") simp_all
    have p1: "primPtr ?s1 = primPtr s + 1" and m1: "primMem ?s1 = (primMem s)(primPtr s := ?pr)"
      by (simp_all add: a(4))
    have ptr: "primPtr ?r = primPtr s + ?n" using IH p1 n by simp
    have cnt: "sint (primCount ?r) = sint (primCount s) + int ?n" using IH a(3) n by simp
    have mem: "primMem ?r (primPtr s + i) = ((pr # prs) ! i)\<lparr>paint := ph, xform := xh\<rparr>"
      if "i < ?n" for i
    proof (cases i)
      case 0
      have "primMem ?r (primPtr s) = primMem ?s1 (primPtr s)"
        using IH p1 by simp
      then show ?thesis using 0 m1 by simp
    next
      case (Suc j)
      from that n have "i < Suc ?n1" by (simp only:)
      with Suc have "j < ?n1" by (simp only: Suc_less_eq)
      with IH have "primMem ?r (primPtr ?s1 + j) = (prs ! j)\<lparr>paint := ph, xform := xh\<rparr>"
        by blast
      then show ?thesis using Suc p1 by simp
    qed
    have other: "primMem ?r a = primMem s a" if "a < primPtr s \<or> primPtr s + ?n \<le> a" for a
    proof -
      from that have "a < primPtr ?s1 \<or> primPtr ?s1 + ?n1 \<le> a" and ne: "a \<noteq> primPtr s"
        using p1 n by auto
      with IH have "primMem ?r a = primMem ?s1 a" by blast
      then show ?thesis using m1 ne by simp
    qed
    have frame: "?r = s\<lparr>primMem := primMem ?r, primPtr := primPtr ?r, primCount := primCount ?r\<rparr>"
    proof -
      from IH have "?r = ?s1\<lparr>primMem := primMem ?r, primPtr := primPtr ?r, primCount := primCount ?r\<rparr>"
        by blast
      also have "\<dots> = s\<lparr>primMem := primMem ?r, primPtr := primPtr ?r, primCount := primCount ?r\<rparr>"
        by (simp add: a(4))
      finally show ?thesis .
    qed
    show ?thesis unfolding r using ptr cnt mem other frame by blast
  next
    case False
    note a = addPrim_full [OF False]
    have s1: "?s1 = s" by (rule a(2))
    have z: "?n = 0" "min (length prs) (prim_room s) = 0" using a(1) by simp_all
    from IH show ?thesis unfolding r s1 z
      by (elim conjE; intro conjI; (assumption | simp))
  qed
qed

lemma addPrim_fields [simp]:
  "textCache (addPrim pr s) = textCache s" "currentFrame (addPrim pr s) = currentFrame s"
  by (simp_all add: addPrim_def)

lemma copy_prims_fields [simp]:
  "textCache (copy_prims ph xh prs s) = textCache s"
  "currentFrame (copy_prims ph xh prs s) = currentFrame s"
  by (induction prs arbitrary: s) simp_all

lemma cache_find_Some_refl:
  "cache_find c k = Some v \<Longrightarrow> operator_eq k k"
  by (induction c) (auto split: if_splits dest: operator_eq_right_refl)

lemma sample_key_refl: "operator_eq sample_key sample_key"
  by (simp add: operator_eq_fields sample_key_def float_eq_def isnan_def float_minus_one_def)

lemma sample_key_other: "\<not> operator_eq sample_key (sample_key\<lparr>breakRowWidth := float_hundred\<rparr>)"
  by (simp add: operator_eq_fields sample_key_def minus_one_neq_hundred)

text \<open>
  C3, as amended. \<open>renderCachedText\<close> returns true exactly when the key is present in
  the cache. On a miss it returns the state as it was. On a hit the entry found
  carries the current frame number afterwards and lookups of other keys are as before;
  the cached primitives, each with the caller's paint and transform handles in place
  of its own, stand at the cursor in the order of the cache, as many of them as the
  primitive arena has room for: all of them when the room suffices, none when the
  arena is full. The cursor and the count have moved by that number, every other
  address keeps its content, and nothing but the cache and the primitive arena has
  changed.
\<close>

theorem renderCachedText_hit_or_miss:
  "(fst (renderCachedText key ph xh s) \<longleftrightarrow> present key s) \<and>
   (\<not> present key s \<longrightarrow> renderCachedText key ph xh s = (False, s)) \<and>
   (\<forall>info. cache_find (textCache s) key = Some info \<longrightarrow>
      fst (renderCachedText key ph xh s) \<and>
      cache_find (textCache (snd (renderCachedText key ph xh s))) key =
        Some (info\<lparr>lastFrame := currentFrame s\<rparr>) \<and>
      (\<forall>k'. \<not> operator_eq key k' \<longrightarrow>
         cache_find (textCache (snd (renderCachedText key ph xh s))) k' =
           cache_find (textCache s) k') \<and>
      primPtr (snd (renderCachedText key ph xh s)) =
        primPtr s + min (length (prims info)) (prim_room s) \<and>
      sint (primCount (snd (renderCachedText key ph xh s))) =
        sint (primCount s) + int (min (length (prims info)) (prim_room s)) \<and>
      (\<forall>i < min (length (prims info)) (prim_room s).
         primMem (snd (renderCachedText key ph xh s)) (primPtr s + i) =
           (prims info ! i)\<lparr>paint := ph, xform := xh\<rparr>) \<and>
      (\<forall>a. a < primPtr s \<or> primPtr s + min (length (prims info)) (prim_room s) \<le> a \<longrightarrow>
         primMem (snd (renderCachedText key ph xh s)) a = primMem s a) \<and>
      (length (prims info) \<le> prim_room s \<longrightarrow>
         primPtr (snd (renderCachedText key ph xh s)) = primPtr s + length (prims info) \<and>
         (\<forall>i < length (prims info).
            primMem (snd (renderCachedText key ph xh s)) (primPtr s + i) =
              (prims info ! i)\<lparr>paint := ph, xform := xh\<rparr>)) \<and>
      snd (renderCachedText key ph xh s) =
        s\<lparr>textCache := cache_put key (info\<lparr>lastFrame := currentFrame s\<rparr>) (textCache s),
          primMem := primMem (snd (renderCachedText key ph xh s)),
          primPtr := primPtr (snd (renderCachedText key ph xh s)),
          primCount := primCount (snd (renderCachedText key ph xh s))\<rparr>)"
proof (intro conjI allI impI)
  show "fst (renderCachedText key ph xh s) \<longleftrightarrow> present key s"
    by (simp add: renderCachedText_def present_def split: option.split)
next
  assume "\<not> present key s"
  then show "renderCachedText key ph xh s = (False, s)"
    by (simp add: renderCachedText_def present_def)
next
  fix info
  assume hit: "cache_find (textCache s) key = Some info"
  let ?c = "cache_put key (info\<lparr>lastFrame := currentFrame s\<rparr>) (textCache s)"
  let ?s0 = "s\<lparr>textCache := ?c\<rparr>"
  have r: "renderCachedText key ph xh s = (True, copy_prims ph xh (prims info) ?s0)"
    using hit by (simp add: renderCachedText_def)
  have room: "prim_room ?s0 = prim_room s" by (simp add: prim_room_def)
  note e = copy_prims_effect [of ph xh "prims info" ?s0, unfolded room]
  show "fst (renderCachedText key ph xh s)" by (simp add: r)
  show "cache_find (textCache (snd (renderCachedText key ph xh s))) key =
      Some (info\<lparr>lastFrame := currentFrame s\<rparr>)"
    using cache_find_Some_refl [OF hit] by (simp add: r cache_find_put_same)
  show "primPtr (snd (renderCachedText key ph xh s)) =
      primPtr s + min (length (prims info)) (prim_room s)"
    using e by (simp add: r)
  show "sint (primCount (snd (renderCachedText key ph xh s))) =
      sint (primCount s) + int (min (length (prims info)) (prim_room s))"
    using e by (simp add: r)
  show "snd (renderCachedText key ph xh s) =
      s\<lparr>textCache := ?c,
        primMem := primMem (snd (renderCachedText key ph xh s)),
        primPtr := primPtr (snd (renderCachedText key ph xh s)),
        primCount := primCount (snd (renderCachedText key ph xh s))\<rparr>"
  proof -
    from e have "copy_prims ph xh (prims info) ?s0 =
        ?s0\<lparr>primMem := primMem (copy_prims ph xh (prims info) ?s0),
            primPtr := primPtr (copy_prims ph xh (prims info) ?s0),
            primCount := primCount (copy_prims ph xh (prims info) ?s0)\<rparr>"
      by blast
    then show ?thesis by (simp add: r)
  qed
  {
    fix k' assume "\<not> operator_eq key k'"
    then show "cache_find (textCache (snd (renderCachedText key ph xh s))) k' =
        cache_find (textCache s) k'"
      by (simp add: r cache_find_put_other)
  }
  {
    fix i assume "i < min (length (prims info)) (prim_room s)"
    with e have "primMem (copy_prims ph xh (prims info) ?s0) (primPtr ?s0 + i) =
        (prims info ! i)\<lparr>paint := ph, xform := xh\<rparr>"
      by blast
    then show "primMem (snd (renderCachedText key ph xh s)) (primPtr s + i) =
        (prims info ! i)\<lparr>paint := ph, xform := xh\<rparr>"
      by (simp add: r)
  }
  {
    assume le: "length (prims info) \<le> prim_room s"
    then have mn: "min (length (prims info)) (prim_room s) = length (prims info)" by simp
    show "primPtr (snd (renderCachedText key ph xh s)) = primPtr s + length (prims info)"
      using e mn by (simp add: r)
    {
      fix i assume "i < length (prims info)"
      with e mn have "primMem (copy_prims ph xh (prims info) ?s0) (primPtr ?s0 + i) =
          (prims info ! i)\<lparr>paint := ph, xform := xh\<rparr>"
        by simp
      then show "primMem (snd (renderCachedText key ph xh s)) (primPtr s + i) =
          (prims info ! i)\<lparr>paint := ph, xform := xh\<rparr>"
        by (simp add: r)
    }
  }
  {
    fix a assume "a < primPtr s \<or> primPtr s + min (length (prims info)) (prim_room s) \<le> a"
    then have "a < primPtr ?s0 \<or> primPtr ?s0 + min (length (prims info)) (prim_room s) \<le> a"
      by simp
    with e have "primMem (copy_prims ph xh (prims info) ?s0) a = primMem ?s0 a"
      by blast
    then show "primMem (snd (renderCachedText key ph xh s)) a = primMem s a"
      by (simp add: r)
  }
qed

text \<open>
  A hit on \<open>sample_key\<close>: two primitives copied with handles 7 and 9, stamp 1. The
  same hit on an arena with room for one primitive: one copied. A miss on the same
  text with wrap width 100.
\<close>

theorem renderCachedText_hit_or_miss_witness:
  "cache_find (textCache cached_vger) sample_key = Some \<lparr>lastFrame = 0, prims = sample_prims\<rparr> \<and>
   fst (renderCachedText sample_key 7 9 cached_vger) \<and>
   cache_find (textCache (snd (renderCachedText sample_key 7 9 cached_vger))) sample_key =
     Some \<lparr>lastFrame = 1, prims = sample_prims\<rparr> \<and>
   primPtr (snd (renderCachedText sample_key 7 9 cached_vger)) = 2 \<and>
   primMem (snd (renderCachedText sample_key 7 9 cached_vger)) 1 =
     \<lparr>paint = 7, xform = 9, geometry = ()\<rparr> \<and>
   primMem (snd (renderCachedText sample_key 7 9 cached_vger)) 2 = primMem cached_vger 2 \<and>
   length sample_prims \<le> prim_room cached_vger \<and>
   prim_room (cached_vger\<lparr>maxPrims := 1\<rparr>) = 1 \<and>
   fst (renderCachedText sample_key 7 9 (cached_vger\<lparr>maxPrims := 1\<rparr>)) \<and>
   primPtr (snd (renderCachedText sample_key 7 9 (cached_vger\<lparr>maxPrims := 1\<rparr>))) = 1 \<and>
   \<not> present (sample_key\<lparr>breakRowWidth := float_hundred\<rparr>) cached_vger \<and>
   renderCachedText (sample_key\<lparr>breakRowWidth := float_hundred\<rparr>) 7 9 cached_vger =
     (False, cached_vger)"
proof -
  let ?info = "\<lparr>lastFrame = 0, prims = sample_prims\<rparr> :: unit TextLayoutInfo"
  let ?s' = "snd (renderCachedText sample_key 7 9 cached_vger)"
  have hit: "cache_find (textCache cached_vger) sample_key = Some ?info"
    by (simp add: cached_vger_def sample_key_refl)
  have miss: "\<not> present (sample_key\<lparr>breakRowWidth := float_hundred\<rparr>) cached_vger"
    by (simp add: present_def cached_vger_def sample_key_other)
  have f: "currentFrame cached_vger = 1" "primPtr cached_vger = 0" "prim_room cached_vger = 65536"
    by (simp_all add: cached_vger_def sample_vger_def default_members_def prim_room_def)
  have l: "min (length (prims ?info)) (prim_room cached_vger) = 2"
    by (simp add: f sample_prims_def)
  note t = renderCachedText_hit_or_miss [of sample_key 7 9 cached_vger]
  from t hit have a: "fst (renderCachedText sample_key 7 9 cached_vger)"
    and b: "cache_find (textCache ?s') sample_key = Some (?info\<lparr>lastFrame := currentFrame cached_vger\<rparr>)"
    and c: "primPtr ?s' = primPtr cached_vger + min (length (prims ?info)) (prim_room cached_vger)"
    and d: "\<forall>i < min (length (prims ?info)) (prim_room cached_vger).
         primMem ?s' (primPtr cached_vger + i) = (prims ?info ! i)\<lparr>paint := 7, xform := 9\<rparr>"
    and e: "\<forall>a. a < primPtr cached_vger \<or>
            primPtr cached_vger + min (length (prims ?info)) (prim_room cached_vger) \<le> a \<longrightarrow>
         primMem ?s' a = primMem cached_vger a"
    by blast+
  from d [unfolded l f, rule_format, of 1]
  have d1: "primMem ?s' 1 = \<lparr>paint = 7, xform = 9, geometry = ()\<rparr>"
    by (simp add: sample_prims_def)
  from e [unfolded l f, rule_format, of 2]
  have e2: "primMem ?s' 2 = primMem cached_vger 2" by (simp add: sample_prims_def)
  from renderCachedText_hit_or_miss [of "sample_key\<lparr>breakRowWidth := float_hundred\<rparr>" 7 9 cached_vger] miss
  have m: "renderCachedText (sample_key\<lparr>breakRowWidth := float_hundred\<rparr>) 7 9 cached_vger =
     (False, cached_vger)"
    by blast
  have hit1: "cache_find (textCache (cached_vger\<lparr>maxPrims := 1\<rparr>)) sample_key = Some ?info"
    by (simp add: cached_vger_def sample_key_refl)
  have f1: "primPtr (cached_vger\<lparr>maxPrims := 1\<rparr>) = 0" "prim_room (cached_vger\<lparr>maxPrims := 1\<rparr>) = 1"
    by (simp_all add: cached_vger_def sample_vger_def default_members_def prim_room_def)
  from renderCachedText_hit_or_miss [of sample_key 7 9 "cached_vger\<lparr>maxPrims := 1\<rparr>"] hit1
  have a1: "fst (renderCachedText sample_key 7 9 (cached_vger\<lparr>maxPrims := 1\<rparr>))"
    and c1: "primPtr (snd (renderCachedText sample_key 7 9 (cached_vger\<lparr>maxPrims := 1\<rparr>))) =
      primPtr (cached_vger\<lparr>maxPrims := 1\<rparr>) +
      min (length (prims ?info)) (prim_room (cached_vger\<lparr>maxPrims := 1\<rparr>))"
    by blast+
  from c1 have c1': "primPtr (snd (renderCachedText sample_key 7 9 (cached_vger\<lparr>maxPrims := 1\<rparr>))) = 1"
    by (simp add: f1 sample_prims_def)
  from hit a b c d1 e2 miss m a1 c1' f1 show ?thesis
    by (simp add: f sample_prims_def)
qed

text \<open>
  C3 as stated, refuted. On a full primitive arena a hit on \<open>sample_key\<close>, which caches
  two primitives, returns true and copies nothing: cursor, count and memory are as
  before.
\<close>

theorem renderCachedText_full_arena_counterexample:
  "cache_find (textCache full_vger) sample_key = Some \<lparr>lastFrame = 0, prims = sample_prims\<rparr> \<and>
   length sample_prims = 2 \<and>
   fst (renderCachedText sample_key 7 9 full_vger) \<and>
   primPtr (snd (renderCachedText sample_key 7 9 full_vger)) = primPtr full_vger \<and>
   primCount (snd (renderCachedText sample_key 7 9 full_vger)) = primCount full_vger \<and>
   primMem (snd (renderCachedText sample_key 7 9 full_vger)) = primMem full_vger"
proof -
  have hit: "cache_find (textCache full_vger) sample_key = Some \<lparr>lastFrame = 0, prims = sample_prims\<rparr>"
    by (simp add: full_vger_def cached_vger_def sample_key_refl)
  have full: "\<not> primCount full_vger <s maxPrims full_vger"
    by (simp add: full_vger_def cached_vger_def sample_vger_def default_members_def word_sless_alt)
  have stay: "addPrim pr (full_vger\<lparr>textCache := c\<rparr>) = full_vger\<lparr>textCache := c\<rparr>" for pr c
    using full by (simp add: addPrim_def)
  have "renderCachedText sample_key 7 9 full_vger =
      (True, full_vger\<lparr>textCache :=
         cache_put sample_key \<lparr>lastFrame = currentFrame full_vger, prims = sample_prims\<rparr>
           (textCache full_vger)\<rparr>)"
    using hit by (simp add: renderCachedText_def sample_prims_def stay)
  with hit show ?thesis by (simp add: sample_prims_def)
qed

lemma drawText_cache:
  "currentFrame (drawText d s) = currentFrame s \<and>
   (\<exists>v. lastFrame v = currentFrame s \<and>
        textCache (drawText d s) = cache_put (draw_key d) v (textCache s))"
proof (cases "cache_find (textCache s) (draw_key d)")
  case None
  then show ?thesis
    by (auto simp: drawText_def renderCachedText_def
        intro!: exI [of _ "\<lparr>lastFrame = currentFrame s, prims = draw_shaped d\<rparr>"])
next
  case (Some info)
  then show ?thesis
    by (auto simp: drawText_def renderCachedText_def
        intro!: exI [of _ "info\<lparr>lastFrame := currentFrame s\<rparr>"])
qed

lemma drawText_fresh_same:
  assumes "operator_eq (draw_key d) k"
  shows "fresh k (drawText d s)"
proof -
  from drawText_cache [of d s] obtain v where
    v: "lastFrame v = currentFrame s" "textCache (drawText d s) = cache_put (draw_key d) v (textCache s)"
    and f: "currentFrame (drawText d s) = currentFrame s" by blast
  have "cache_find (textCache (drawText d s)) k = Some v"
    unfolding v(2) by (rule cache_find_put_same [OF assms])
  with v(1) f show ?thesis
    unfolding fresh_def by simp
qed

lemma drawText_fresh_keep:
  assumes "fresh k s"
  shows "fresh k (drawText d s)"
proof (cases "operator_eq (draw_key d) k")
  case True
  then show ?thesis by (rule drawText_fresh_same)
next
  case False
  from drawText_cache [of d s] obtain v where
    v: "textCache (drawText d s) = cache_put (draw_key d) v (textCache s)"
    and f: "currentFrame (drawText d s) = currentFrame s" by blast
  show ?thesis
    using assms unfolding fresh_def v f by (simp add: cache_find_put_other [OF False])
qed

lemma drawText_present_keep:
  assumes "present k s"
  shows "present k (drawText d s)"
proof -
  from drawText_cache [of d s] obtain v where
    v: "textCache (drawText d s) = cache_put (draw_key d) v (textCache s)" by blast
  show ?thesis
  proof (cases "operator_eq (draw_key d) k")
    case True
    then show ?thesis unfolding present_def v by (simp add: cache_find_put_same)
  next
    case False
    then show ?thesis using assms unfolding present_def v by (simp add: cache_find_put_other)
  qed
qed

lemma run_draws_fresh:
  "fresh k s \<or> rendered k ds \<Longrightarrow> fresh k (run_draws ds s)"
proof (induction ds arbitrary: s)
  case Nil
  then show ?case by (simp add: rendered_def)
next
  case (Cons d ds)
  from Cons.prems have "fresh k (drawText d s) \<or> rendered k ds"
    by (auto simp: rendered_def intro: drawText_fresh_same drawText_fresh_keep)
  then show ?case using Cons.IH by simp
qed

lemma cache_find_filter_keep:
  "cache_find c k = Some v \<Longrightarrow> Q v \<Longrightarrow> cache_find (filter (\<lambda>e. Q (snd e)) c) k = Some v"
  by (induction c) (auto split: if_splits)

lemma frame_end_present:
  assumes "fresh k s"
  shows "present k (frame_end s)"
proof -
  from assms obtain v where v: "cache_find (textCache s) k = Some v" "lastFrame v = currentFrame s"
    unfolding fresh_def by blast
  from cache_find_filter_keep [of "textCache s" k v "\<lambda>v. lastFrame v = currentFrame s", OF v]
  show ?thesis by (simp add: present_def frame_end_def prune_def)
qed

lemma run_frame_present: "rendered k ds \<Longrightarrow> present k (run_frame ds s)"
  unfolding run_frame_def by (intro frame_end_present run_draws_fresh) simp

lemma cache_find_None_iff: "cache_find c k = None \<longleftrightarrow> matching k c = []"
  by (induction c) (auto simp: matching_def)

lemma matching_put_other:
  assumes "\<not> operator_eq k2 k"
  shows "matching k (cache_put k2 v c) = matching k c"
proof -
  have x: "\<not> operator_eq e k" if "operator_eq e k2" for e
    using assms that operator_eq_common_left by blast
  show ?thesis
    by (induction c) (auto simp: matching_def assms dest: x)
qed

lemma frame_end_stale: "stale (frame_end s)"
proof -
  have "currentFrame s + 1 \<noteq> currentFrame s" by simp
  then show ?thesis
    by (auto simp: stale_def frame_end_def prune_def)
qed

lemma drawText_matching:
  assumes "\<not> operator_eq (draw_key d) k"
  shows "matching k (textCache (drawText d s)) = matching k (textCache s)"
    "currentFrame (drawText d s) = currentFrame s"
proof -
  from drawText_cache [of d s] obtain v where
    v: "textCache (drawText d s) = cache_put (draw_key d) v (textCache s)"
    and f: "currentFrame (drawText d s) = currentFrame s" by blast
  show "matching k (textCache (drawText d s)) = matching k (textCache s)"
    unfolding v by (rule matching_put_other [OF assms])
  show "currentFrame (drawText d s) = currentFrame s" by (rule f)
qed

lemma run_draws_matching:
  "\<not> rendered k ds \<Longrightarrow>
   matching k (textCache (run_draws ds s)) = matching k (textCache s) \<and>
   currentFrame (run_draws ds s) = currentFrame s"
proof (induction ds arbitrary: s)
  case Nil
  show ?case by simp
next
  case (Cons d ds)
  from Cons.prems have a: "\<not> operator_eq (draw_key d) k" and b: "\<not> rendered k ds"
    by (simp_all add: rendered_def)
  from Cons.IH [OF b, of "drawText d s"] drawText_matching [OF a, of s]
  show ?case by simp
qed

lemma matching_filter: "matching k (filter Q c) = filter Q (matching k c)"
  by (induction c) (auto simp: matching_def)

lemma run_frame_absent:
  assumes "stale s" and "\<not> rendered k ds"
  shows "\<not> present k (run_frame ds s)"
proof -
  let ?t = "run_draws ds s"
  from run_draws_matching [OF assms(2), of s]
  have m: "matching k (textCache ?t) = matching k (textCache s)"
    and f: "currentFrame ?t = currentFrame s" by simp_all
  have "set (matching k (textCache s)) \<subseteq> set (textCache s)"
    by (simp add: matching_def)
  with assms(1) have "\<forall>e \<in> set (matching k (textCache ?t)). lastFrame (snd e) \<noteq> currentFrame ?t"
    unfolding stale_def m f by blast
  then have "filter (\<lambda>e. lastFrame (snd e) = currentFrame ?t) (matching k (textCache ?t)) = []"
    by (simp add: filter_empty_conv)
  then have "matching k (textCache (prune ?t)) = []"
    by (simp add: prune_def matching_filter)
  then show ?thesis
    by (simp add: present_def run_frame_def frame_end_def cache_find_None_iff prune_def)
qed

lemma run_frames_snoc: "run_frames (fs @ [ds]) s = run_frame ds (run_frames fs s)"
  by (induction fs arbitrary: s) simp_all

lemma run_frames_present:
  assumes "fs \<noteq> []" and "rendered k (last fs)"
  shows "present k (run_frames fs s)"
proof -
  from assms(1) obtain gs where fs: "fs = gs @ [last fs]"
    by (metis append_butlast_last_id)
  show ?thesis
    by (subst fs, simp only: run_frames_snoc, rule run_frame_present [OF assms(2)])
qed

lemma drawn_rendered: "operator_eq k k \<Longrightarrow> drawn k ds \<Longrightarrow> rendered k ds"
  by (induction ds) (auto simp: drawn_def rendered_def)

lemma not_refl_not_rendered: "\<not> operator_eq k k \<Longrightarrow> \<not> rendered k ds"
  by (induction ds) (auto simp: rendered_def dest: operator_eq_right_refl)

lemma nan_entry: "textCache (run_draws [nan_draw] sample_vger) =
     [(nan_key, \<lparr>lastFrame = 1, prims = sample_prims\<rparr>)]"
  by (simp add: drawText_def renderCachedText_def nan_draw_def hello_draw_def sample_vger_def
      default_members_def)

text \<open>
  C2, as amended. The prune pass keeps exactly the entries whose \<^verbatim>\<open>lastFrame\<close> is the
  current frame number. The laws hold of every key that equals itself, which is every
  key without a NaN field; a key with a NaN field equals no key, is rendered by no
  draw and is never present. A key counts as rendered in a frame when a draw of the
  frame carries a key equal to it, as a draw that carries the key itself does when
  the key equals itself. A key rendered in a frame is present after that frame's
  prune pass. A key not rendered in the frame that follows is absent after that
  frame's prune pass. Over a run of frames that all render the key, it is present
  after the prune pass of each; within a frame no draw removes a key that is present.
\<close>

theorem text_cache_pruning_law:
  "(\<forall>e. e \<in> set (textCache (prune s)) \<longleftrightarrow>
        e \<in> set (textCache s) \<and> lastFrame (snd e) = currentFrame s) \<and>
   (operator_eq k k \<longleftrightarrow> \<not> isnan (size_k k) \<and> \<not> isnan (breakRowWidth k)) \<and>
   (operator_eq k k \<and> drawn k ds \<longrightarrow> rendered k ds) \<and>
   (\<not> operator_eq k k \<longrightarrow> \<not> rendered k ds \<and> \<not> present k s) \<and>
   (rendered k ds \<longrightarrow> present k (run_frame ds s)) \<and>
   (\<not> rendered k ds' \<longrightarrow> \<not> present k (run_frame ds' (run_frame ds s))) \<and>
   (list_all (rendered k) fs \<longrightarrow>
      (\<forall>n. 0 < n \<and> n \<le> length fs \<longrightarrow> present k (run_frames (take n fs) s))) \<and>
   (present k s \<longrightarrow> present k (drawText d s))"
proof (intro conjI allI impI)
  fix e
  show "e \<in> set (textCache (prune s)) \<longleftrightarrow>
        e \<in> set (textCache s) \<and> lastFrame (snd e) = currentFrame s"
    by (simp add: prune_def)
next
  show "operator_eq k k \<longleftrightarrow> \<not> isnan (size_k k) \<and> \<not> isnan (breakRowWidth k)"
    by (rule operator_eq_refl_iff)
next
  assume "operator_eq k k \<and> drawn k ds"
  then show "rendered k ds" by (blast intro: drawn_rendered)
next
  assume n: "\<not> operator_eq k k"
  then show "\<not> rendered k ds" by (rule not_refl_not_rendered)
  show "\<not> present k s" using cache_find_not_refl [OF n] by (simp add: present_def)
next
  assume "rendered k ds"
  then show "present k (run_frame ds s)" by (rule run_frame_present)
next
  assume "\<not> rendered k ds'"
  with frame_end_stale [of "run_draws ds s"]
  show "\<not> present k (run_frame ds' (run_frame ds s))"
    unfolding run_frame_def [of ds s] by (rule run_frame_absent)
next
  fix n
  assume all: "list_all (rendered k) fs" and n: "0 < n \<and> n \<le> length fs"
  then have ne: "take n fs \<noteq> []" by auto
  have "last (take n fs) = take n fs ! (n - 1)"
    using ne n by (simp add: last_conv_nth min_absorb2)
  then have "last (take n fs) = fs ! (n - 1)"
    using n by simp
  moreover have "rendered k (fs ! (n - 1))"
  proof -
    from n have "n - 1 < length fs" by arith
    with all show ?thesis by (simp only: list_all_length)
  qed
  ultimately have "rendered k (last (take n fs))" by simp
  with ne show "present k (run_frames (take n fs) s)" by (rule run_frames_present)
next
  assume "present k s"
  then show "present k (drawText d s)" by (rule drawText_present_keep)
qed

text \<open>
  "Hello" at size 16, no wrap, drawn in frames 1 and 2 and not in frame 3: present
  after the first and the second prune pass, absent after the third. The same text
  with a NaN size: not rendered by its own draw, not present.
\<close>

theorem text_cache_pruning_law_witness:
  "operator_eq sample_key sample_key \<and> drawn sample_key [hello_draw] \<and>
   rendered sample_key [hello_draw] \<and> \<not> rendered sample_key ([] :: unit draw list) \<and>
   list_all (rendered sample_key) [[hello_draw], [hello_draw]] \<and>
   present sample_key (run_frames [[hello_draw]] sample_vger) \<and>
   present sample_key (run_frames [[hello_draw], [hello_draw]] sample_vger) \<and>
   \<not> present sample_key (run_frames [[hello_draw], [hello_draw], []] sample_vger) \<and>
   \<not> operator_eq nan_key nan_key \<and> \<not> rendered nan_key [nan_draw] \<and>
   \<not> present nan_key (run_frames [[nan_draw]] sample_vger)"
proof -
  have dr: "drawn sample_key [hello_draw]"
    by (simp add: drawn_def hello_draw_def)
  have nr: "\<not> rendered sample_key ([] :: unit draw list)"
    by (simp add: rendered_def)
  note t = text_cache_pruning_law [of sample_vger sample_key "[hello_draw]" "[]"
      "[[hello_draw], [hello_draw]]" hello_draw]
  from t sample_key_refl dr have r: "rendered sample_key [hello_draw]" by blast
  then have all: "list_all (rendered sample_key) [[hello_draw], [hello_draw]]" by simp
  from t all have p: "\<forall>n. 0 < n \<and> n \<le> length [[hello_draw], [hello_draw]] \<longrightarrow>
      present sample_key (run_frames (take n [[hello_draw], [hello_draw]]) sample_vger)"
    by blast
  from p [rule_format, of 1] have p1: "present sample_key (run_frames [[hello_draw]] sample_vger)"
    by (simp del: run_frames.simps)
  from p [rule_format, of 2]
  have p2: "present sample_key (run_frames [[hello_draw], [hello_draw]] sample_vger)"
    by (simp del: run_frames.simps)
  from text_cache_pruning_law [of "run_frame [hello_draw] sample_vger" sample_key "[hello_draw]" "[]"
      "[]" hello_draw] nr
  have "\<not> present sample_key (run_frame [] (run_frame [hello_draw] (run_frame [hello_draw] sample_vger)))"
    by blast
  then have a3: "\<not> present sample_key (run_frames [[hello_draw], [hello_draw], []] sample_vger)"
    by simp
  from text_cache_pruning_law [of "run_frames [[nan_draw]] sample_vger" nan_key "[nan_draw]" "[]"
      "[]" nan_draw] nan_key_not_refl
  have nn: "\<not> rendered nan_key [nan_draw]"
    "\<not> present nan_key (run_frames [[nan_draw]] sample_vger)"
    by blast+
  from sample_key_refl dr r nr all p1 p2 a3 nan_key_not_refl nn show ?thesis by blast
qed

text \<open>
  C2 as stated, refuted. A draw carries \<open>nan_key\<close> in each of three frames. The first
  draw stores an entry under it with the current frame number, and the key is present
  neither then nor after any of the three prune passes.
\<close>

theorem text_cache_pruning_counterexample:
  "draw_key nan_draw = nan_key \<and> drawn nan_key [nan_draw] \<and>
   textCache (run_draws [nan_draw] sample_vger) =
     [(nan_key, \<lparr>lastFrame = 1, prims = sample_prims\<rparr>)] \<and>
   \<not> present nan_key (run_draws [nan_draw] sample_vger) \<and>
   \<not> present nan_key (run_frames [[nan_draw]] sample_vger) \<and>
   \<not> present nan_key (run_frames [[nan_draw], [nan_draw]] sample_vger) \<and>
   \<not> present nan_key (run_frames [[nan_draw], [nan_draw], [nan_draw]] sample_vger)"
proof -
  have "\<not> present nan_key s" for s :: "(nat, unit) vger"
    using cache_find_not_refl [OF nan_key_not_refl] by (simp add: present_def)
  with nan_entry show ?thesis by (simp add: nan_draw_def drawn_def)
qed

section \<open>The linear gradient\<close>










end
